theory Spec2Isabelle
  imports Main "HOL-Library.Word"
begin

section \<open>Binary data and strings\<close>

text \<open>
  The cryptography module (\<^verbatim>\<open>lib/crypto\<close>) works on two kinds of data: binary buffers
  (\<^verbatim>\<open>ArrayBuffer\<close>, read through \<^verbatim>\<open>Uint8Array\<close>) and JavaScript strings, which are
  sequences of 16-bit code units.
\<close>

type_synonym byte = "8 word"
type_synonym code_unit = "16 word"
type_synonym jsstring = "code_unit list"
type_synonym ArrayBuffer = "byte list"

text \<open>A string literal of the source, whose characters are all ASCII.\<close>

definition js :: "string \<Rightarrow> jsstring" where
  "js s = map (\<lambda>c. of_nat (of_char c)) s"

text \<open>The exceptions the platform raises, by the name of the \<^verbatim>\<open>DOMException\<close>.\<close>

datatype DOMException =
    InvalidCharacterError
  | InvalidAccessError
  | DataError
  | OperationError
  | SyntaxError
  | NotSupportedError
  | VersionError

section \<open>Base64: \<^verbatim>\<open>btoa\<close> and \<^verbatim>\<open>atob\<close>\<close>

text \<open>
  \<^verbatim>\<open>btoa\<close> and \<^verbatim>\<open>atob\<close> are the platform's forgiving-base64 encode and decode. The
  encoder takes three bytes to four sextets; a last group of one or two bytes gives two
  or three sextets and is padded with \<^verbatim>\<open>=\<close> to four characters.
\<close>

definition b64_char :: "nat \<Rightarrow> code_unit" where
  "b64_char n = of_nat (if n < 26 then 65 + n
                        else if n < 52 then 71 + n
                        else if n < 62 then n - 4
                        else if n = 62 then 43 else 47)"

definition b64_value :: "code_unit \<Rightarrow> nat option" where
  "b64_value c = (let v = unat c in
     if 65 \<le> v \<and> v \<le> 90 then Some (v - 65)
     else if 97 \<le> v \<and> v \<le> 122 then Some (v - 71)
     else if 48 \<le> v \<and> v \<le> 57 then Some (v + 4)
     else if v = 43 then Some 62
     else if v = 47 then Some 63
     else None)"

fun encode_sextets :: "byte list \<Rightarrow> nat list" where
  "encode_sextets (a # b # c # rest) =
     [unat a div 4, (unat a mod 4) * 16 + unat b div 16,
      (unat b mod 16) * 4 + unat c div 64, unat c mod 64] @ encode_sextets rest"
| "encode_sextets [a, b] =
     [unat a div 4, (unat a mod 4) * 16 + unat b div 16, (unat b mod 16) * 4]"
| "encode_sextets [a] = [unat a div 4, (unat a mod 4) * 16]"
| "encode_sextets [] = []"

definition base64_padding :: "nat \<Rightarrow> jsstring" where
  "base64_padding n = replicate ((3 - n mod 3) mod 3) 0x3D"

definition base64_encode :: "byte list \<Rightarrow> jsstring" where
  "base64_encode bs = map b64_char (encode_sextets bs) @ base64_padding (length bs)"

text \<open>
  \<^verbatim>\<open>btoa(s)\<close> reads each code unit of \<^verbatim>\<open>s\<close> as one byte and throws
  \<^verbatim>\<open>InvalidCharacterError\<close> when a code unit is above \<^verbatim>\<open>0xFF\<close>.
\<close>

definition btoa :: "jsstring \<Rightarrow> DOMException + jsstring" where
  "btoa s = (if list_ex (\<lambda>c. 0xFF < c) s then Inl InvalidCharacterError
             else Inr (base64_encode (map ucast s)))"

text \<open>
  \<^verbatim>\<open>atob(s)\<close>: ASCII whitespace is removed; when the length is then a multiple of four,
  one or two trailing \<^verbatim>\<open>=\<close> are removed; a length of 1 modulo 4 or a character outside
  the alphabet fails; the bits left over by a last group of two or three characters
  are dropped without being looked at.
\<close>

definition is_ascii_whitespace :: "code_unit \<Rightarrow> bool" where
  "is_ascii_whitespace c = (c = 0x09 \<or> c = 0x0A \<or> c = 0x0C \<or> c = 0x0D \<or> c = 0x20)"

definition strip_padding :: "jsstring \<Rightarrow> jsstring" where
  "strip_padding s =
     (if length s mod 4 = 0 \<and> s \<noteq> [] \<and> last s = 0x3D
      then (if butlast s \<noteq> [] \<and> last (butlast s) = 0x3D then butlast (butlast s)
            else butlast s)
      else s)"

fun b64_values :: "jsstring \<Rightarrow> nat list option" where
  "b64_values [] = Some []"
| "b64_values (c # cs) =
     (case b64_value c of
        None \<Rightarrow> None
      | Some v \<Rightarrow> (case b64_values cs of None \<Rightarrow> None | Some vs \<Rightarrow> Some (v # vs)))"

fun decode_sextets :: "nat list \<Rightarrow> byte list" where
  "decode_sextets (a # b # c # d # rest) =
     [of_nat (a * 4 + b div 16), of_nat ((b mod 16) * 16 + c div 4),
      of_nat ((c mod 4) * 64 + d)] @ decode_sextets rest"
| "decode_sextets [a, b, c] = [of_nat (a * 4 + b div 16), of_nat ((b mod 16) * 16 + c div 4)]"
| "decode_sextets [a, b] = [of_nat (a * 4 + b div 16)]"
| "decode_sextets [a] = []"
| "decode_sextets [] = []"

definition atob :: "jsstring \<Rightarrow> DOMException + jsstring" where
  "atob s =
     (let d = strip_padding (filter (\<lambda>c. \<not> is_ascii_whitespace c) s) in
      if length d mod 4 = 1 then Inl InvalidCharacterError
      else (case b64_values d of
              None \<Rightarrow> Inl InvalidCharacterError
            | Some vs \<Rightarrow> Inr (map ucast (decode_sextets vs))))"

subsection \<open>The two helpers of the module\<close>

text \<open>
  \<^verbatim>\<open>arrayBufferToBase64\<close> appends \<^verbatim>\<open>String.fromCharCode(bytes[i])\<close> for every byte and
  calls \<^verbatim>\<open>btoa\<close>; \<^verbatim>\<open>base64ToArrayBuffer\<close> calls \<^verbatim>\<open>atob\<close> and stores each
  \<^verbatim>\<open>charCodeAt(i)\<close> into a \<^verbatim>\<open>Uint8Array\<close>, which keeps the low eight bits.
\<close>

definition arrayBufferToBase64 :: "ArrayBuffer \<Rightarrow> DOMException + jsstring" where
  "arrayBufferToBase64 buffer = btoa (map ucast buffer)"

definition base64ToArrayBuffer :: "jsstring \<Rightarrow> DOMException + ArrayBuffer" where
  "base64ToArrayBuffer base64 =
     (case atob base64 of
        Inl e \<Rightarrow> Inl e
      | Inr binaryString \<Rightarrow> Inr (map ucast binaryString))"

section \<open>Text: \<^verbatim>\<open>TextEncoder\<close>, \<^verbatim>\<open>TextDecoder\<close> and \<^verbatim>\<open>String.prototype.replace\<close>\<close>

subsection \<open>Strings as sequences of scalar values\<close>

definition is_high_surrogate :: "code_unit \<Rightarrow> bool" where
  "is_high_surrogate c = (0xD800 \<le> unat c \<and> unat c \<le> 0xDBFF)"

definition is_low_surrogate :: "code_unit \<Rightarrow> bool" where
  "is_low_surrogate c = (0xDC00 \<le> unat c \<and> unat c \<le> 0xDFFF)"

text \<open>
  \<^verbatim>\<open>TextEncoder.encode\<close> takes a \<^verbatim>\<open>USVString\<close>: a surrogate pair is one scalar value and
  a surrogate that is not part of a pair is replaced by \<^verbatim>\<open>U+FFFD\<close>.
\<close>

fun to_scalar_values :: "jsstring \<Rightarrow> nat list" where
  "to_scalar_values [] = []"
| "to_scalar_values [c] =
     (if is_high_surrogate c \<or> is_low_surrogate c then [0xFFFD] else [unat c])"
| "to_scalar_values (c # d # rest) =
     (if is_high_surrogate c then
        (if is_low_surrogate d
         then (0x10000 + (unat c - 0xD800) * 0x400 + (unat d - 0xDC00)) # to_scalar_values rest
         else 0xFFFD # to_scalar_values (d # rest))
      else if is_low_surrogate c then 0xFFFD # to_scalar_values (d # rest)
      else unat c # to_scalar_values (d # rest))"

fun from_scalar_values :: "nat list \<Rightarrow> jsstring" where
  "from_scalar_values [] = []"
| "from_scalar_values (cp # cps) =
     (if cp < 0x10000 then of_nat cp # from_scalar_values cps
      else of_nat (0xD800 + (cp - 0x10000) div 0x400)
           # of_nat (0xDC00 + (cp - 0x10000) mod 0x400) # from_scalar_values cps)"

text \<open>A string is well formed when it has no surrogate outside a pair
  (\<^verbatim>\<open>String.prototype.isWellFormed\<close>).\<close>

fun isWellFormed :: "jsstring \<Rightarrow> bool" where
  "isWellFormed [] = True"
| "isWellFormed [c] = (\<not> is_high_surrogate c \<and> \<not> is_low_surrogate c)"
| "isWellFormed (c # d # rest) =
     (if is_high_surrogate c then is_low_surrogate d \<and> isWellFormed rest
      else \<not> is_low_surrogate c \<and> isWellFormed (d # rest))"

subsection \<open>UTF-8\<close>

definition utf8_bytes :: "nat \<Rightarrow> byte list" where
  "utf8_bytes cp =
     (if cp < 0x80 then [of_nat cp]
      else if cp < 0x800 then [of_nat (0xC0 + cp div 64), of_nat (0x80 + cp mod 64)]
      else if cp < 0x10000 then
        [of_nat (0xE0 + cp div 4096), of_nat (0x80 + (cp div 64) mod 64),
         of_nat (0x80 + cp mod 64)]
      else
        [of_nat (0xF0 + cp div 262144), of_nat (0x80 + (cp div 4096) mod 64),
         of_nat (0x80 + (cp div 64) mod 64), of_nat (0x80 + cp mod 64)])"

definition TextEncoder_encode :: "jsstring \<Rightarrow> ArrayBuffer" where
  "TextEncoder_encode input = concat (map utf8_bytes (to_scalar_values input))"

text \<open>
  The platform's UTF-8 decoder, in replacement mode (\<^verbatim>\<open>fatal\<close> is false for
  \<^verbatim>\<open>new TextDecoder()\<close>). Its state is the code point being built, the continuation
  bytes seen and needed, and the bounds of the next continuation byte. A byte outside
  the bounds ends the sequence with \<^verbatim>\<open>U+FFFD\<close> and is read again as a first byte.
\<close>

function utf8_decoder ::
  "nat \<Rightarrow> nat \<Rightarrow> nat \<Rightarrow> nat \<Rightarrow> nat \<Rightarrow> byte list \<Rightarrow> nat list" where
  "utf8_decoder cp seen needed lo hi [] = (if needed = 0 then [] else [0xFFFD])"
| "utf8_decoder cp seen needed lo hi (b # bs) =
     (if needed = 0 then
        (if unat b \<le> 0x7F then unat b # utf8_decoder 0 0 0 0x80 0xBF bs
         else if 0xC2 \<le> unat b \<and> unat b \<le> 0xDF
           then utf8_decoder (unat b mod 32) 0 1 0x80 0xBF bs
         else if 0xE0 \<le> unat b \<and> unat b \<le> 0xEF
           then utf8_decoder (unat b mod 16) 0 2
                  (if unat b = 0xE0 then 0xA0 else 0x80)
                  (if unat b = 0xED then 0x9F else 0xBF) bs
         else if 0xF0 \<le> unat b \<and> unat b \<le> 0xF4
           then utf8_decoder (unat b mod 8) 0 3
                  (if unat b = 0xF0 then 0x90 else 0x80)
                  (if unat b = 0xF4 then 0x8F else 0xBF) bs
         else 0xFFFD # utf8_decoder 0 0 0 0x80 0xBF bs)
      else if unat b < lo \<or> hi < unat b
        then 0xFFFD # utf8_decoder 0 0 0 0x80 0xBF (b # bs)
      else if Suc seen = needed
        then (cp * 64 + unat b mod 64) # utf8_decoder 0 0 0 0x80 0xBF bs
      else utf8_decoder (cp * 64 + unat b mod 64) (Suc seen) needed 0x80 0xBF bs)"
  by pat_completeness auto
termination
  by (relation "measure (\<lambda>(cp, seen, needed, lo, hi, bs).
                   2 * length bs + (if needed = 0 then 0 else 1))") auto

text \<open>
  \<^verbatim>\<open>new TextDecoder()\<close> has \<^verbatim>\<open>ignoreBOM\<close> false: a byte order mark \<^verbatim>\<open>U+FEFF\<close> decoded
  first is not part of the output.
\<close>

fun skip_BOM :: "nat list \<Rightarrow> nat list" where
  "skip_BOM [] = []"
| "skip_BOM (cp # cps) = (if cp = 0xFEFF then cps else cp # cps)"

definition TextDecoder_decode :: "ArrayBuffer \<Rightarrow> jsstring" where
  "TextDecoder_decode bytes =
     from_scalar_values (skip_BOM (utf8_decoder 0 0 0 0x80 0xBF bytes))"

subsection \<open>\<^verbatim>\<open>replace\<close> with the empty string\<close>

text \<open>
  \<^verbatim>\<open>s.replace(pattern, '')\<close> with a string pattern removes the first occurrence of the
  pattern; \<^verbatim>\<open>s.replace(/\n/g, '')\<close> removes every line feed.
\<close>

fun replace_first :: "jsstring \<Rightarrow> jsstring \<Rightarrow> jsstring" where
  "replace_first pat [] = []"
| "replace_first pat (c # cs) =
     (if take (length pat) (c # cs) = pat then drop (length pat) (c # cs)
      else c # replace_first pat cs)"

definition replace_newlines :: "jsstring \<Rightarrow> jsstring" where
  "replace_newlines s = filter (\<lambda>c. c \<noteq> 0x0A) s"

definition PEM_HEADER :: jsstring where
  "PEM_HEADER = js ''-----BEGIN PUBLIC KEY-----''"

definition PEM_FOOTER :: jsstring where
  "PEM_FOOTER = js ''-----END PUBLIC KEY-----''"

section \<open>The Web Crypto API\<close>

subsection \<open>Randomness\<close>

text \<open>
  The platform's random source is an unbounded sequence of bytes; every draw takes the
  next bytes and leaves the rest. \<^verbatim>\<open>crypto.getRandomValues(new Uint8Array(n))\<close> is
  \<open>getRandomValues n\<close>.
\<close>

type_synonym rng = "nat \<Rightarrow> byte"

definition getRandomValues :: "nat \<Rightarrow> rng \<Rightarrow> byte list \<times> rng" where
  "getRandomValues n g = (map g [0..<n], \<lambda>i. g (n + i))"

subsection \<open>Key handles\<close>

datatype KeyType = PublicKey | PrivateKey | SecretKey

datatype KeyUsage =
  Encrypt | Decrypt | Sign | Verify | DeriveKey | DeriveBits | WrapKey | UnwrapKey

datatype HashAlgorithm = SHA_1 | SHA_256 | SHA_384 | SHA_512

datatype KeyFormat = Raw | Spki | Pkcs8

text \<open>
  The module uses two algorithms: \<^verbatim>\<open>RSA-OAEP\<close>, whose keys carry the modulus length, the
  public exponent and the hash, and \<^verbatim>\<open>AES-GCM\<close>, whose keys carry their length in bits.
\<close>

datatype KeyAlgorithm =
    RSA_OAEP nat "byte list" HashAlgorithm
  | AES_GCM nat

text \<open>
  The key material behind a handle is the provider's: \<open>'pub\<close> and \<open>'priv\<close> are its RSA
  public and private keys; an AES key is its raw bytes.
\<close>

datatype ('pub, 'priv) key_material =
    RsaPublic 'pub
  | RsaPrivate 'priv
  | AesSecret "byte list"

record ('pub, 'priv) CryptoKey =
  extractable :: bool
  algorithm :: KeyAlgorithm
  usages :: "KeyUsage list"
  material :: "('pub, 'priv) key_material"

definition key_type :: "('pub, 'priv) CryptoKey \<Rightarrow> KeyType" where
  "key_type key = (case material key of
                     RsaPublic _ \<Rightarrow> PublicKey
                   | RsaPrivate _ \<Rightarrow> PrivateKey
                   | AesSecret _ \<Rightarrow> SecretKey)"

record ('pub, 'priv) CryptoKeyPair =
  publicKey :: "('pub, 'priv) CryptoKey"
  privateKey :: "('pub, 'priv) CryptoKey"

subsection \<open>The cryptographic provider\<close>

text \<open>
  The primitives behind \<^verbatim>\<open>crypto.subtle\<close> are the platform's, not the module's: RSA key
  generation, the SPKI and PKCS8 encodings, RSA-OAEP and AES-GCM (without additional
  data, with the default tag of 128 bits). They are a parameter of the model. A
  primitive that draws randomness takes the random source and returns the rest of it;
  \<open>None\<close> is the primitive's failure.
\<close>

record ('pub, 'priv) provider =
  rsa_generate :: "nat \<Rightarrow> byte list \<Rightarrow> rng \<Rightarrow> ('pub \<times> 'priv) option \<times> rng"
  rsa_public_params :: "'pub \<Rightarrow> nat \<times> byte list"
  rsa_private_params :: "'priv \<Rightarrow> nat \<times> byte list"
  export_spki :: "'pub \<Rightarrow> byte list"
  import_spki :: "byte list \<Rightarrow> 'pub option"
  export_pkcs8 :: "'priv \<Rightarrow> byte list"
  import_pkcs8 :: "byte list \<Rightarrow> 'priv option"
  rsa_oaep_encrypt :: "HashAlgorithm \<Rightarrow> 'pub \<Rightarrow> byte list \<Rightarrow> rng \<Rightarrow> byte list option \<times> rng"
  rsa_oaep_decrypt :: "HashAlgorithm \<Rightarrow> 'priv \<Rightarrow> byte list \<Rightarrow> byte list option"
  aes_gcm_encrypt :: "byte list \<Rightarrow> byte list \<Rightarrow> byte list \<Rightarrow> byte list option"
  aes_gcm_decrypt :: "byte list \<Rightarrow> byte list \<Rightarrow> byte list \<Rightarrow> byte list option"

subsection \<open>\<^verbatim>\<open>crypto.subtle\<close>\<close>

text \<open>
  What \<^verbatim>\<open>SubtleCrypto\<close> does around the primitives: it checks the usages, the type and
  the extractability of a handle and builds the handles of new keys.
\<close>

definition usages_within :: "KeyUsage list \<Rightarrow> KeyUsage list \<Rightarrow> bool" where
  "usages_within us allowed = list_all (\<lambda>u. u \<in> set allowed) us"

definition usage_intersection :: "KeyUsage list \<Rightarrow> KeyUsage list \<Rightarrow> KeyUsage list" where
  "usage_intersection us allowed = filter (\<lambda>u. u \<in> set allowed) us"

text \<open>\<^verbatim>\<open>generateKey({name: 'RSA-OAEP', modulusLength, publicExponent, hash},
  extractable, usages)\<close>. The public key is always extractable.\<close>

definition subtle_generateKey_RSA_OAEP ::
  "('pub, 'priv) provider \<Rightarrow> nat \<Rightarrow> byte list \<Rightarrow> HashAlgorithm \<Rightarrow> bool \<Rightarrow> KeyUsage list
     \<Rightarrow> rng \<Rightarrow> (DOMException + ('pub, 'priv) CryptoKeyPair) \<times> rng" where
  "subtle_generateKey_RSA_OAEP P modulusLength publicExponent hash ext us g =
     (if \<not> usages_within us [Encrypt, Decrypt, WrapKey, UnwrapKey] then (Inl SyntaxError, g)
      else (case rsa_generate P modulusLength publicExponent g of
              (None, g') \<Rightarrow> (Inl OperationError, g')
            | (Some (pk, sk), g') \<Rightarrow>
                (if usage_intersection us [Decrypt, UnwrapKey] = [] then (Inl SyntaxError, g')
                 else (Inr \<lparr>publicKey =
                              \<lparr>extractable = True,
                               algorithm = RSA_OAEP modulusLength publicExponent hash,
                               usages = usage_intersection us [Encrypt, WrapKey],
                               material = RsaPublic pk\<rparr>,
                            privateKey =
                              \<lparr>extractable = ext,
                               algorithm = RSA_OAEP modulusLength publicExponent hash,
                               usages = usage_intersection us [Decrypt, UnwrapKey],
                               material = RsaPrivate sk\<rparr>\<rparr>, g'))))"

text \<open>\<^verbatim>\<open>generateKey({name: 'AES-GCM', length}, extractable, usages)\<close>: the key is
  \<open>length\<close> random bits.\<close>

definition subtle_generateKey_AES_GCM ::
  "nat \<Rightarrow> bool \<Rightarrow> KeyUsage list \<Rightarrow> rng \<Rightarrow> (DOMException + ('pub, 'priv) CryptoKey) \<times> rng" where
  "subtle_generateKey_AES_GCM len ext us g =
     (if \<not> usages_within us [Encrypt, Decrypt, WrapKey, UnwrapKey] then (Inl SyntaxError, g)
      else if len \<noteq> 128 \<and> len \<noteq> 192 \<and> len \<noteq> 256 then (Inl OperationError, g)
      else (case getRandomValues (len div 8) g of
              (k, g') \<Rightarrow>
                (if us = [] then (Inl SyntaxError, g')
                 else (Inr \<lparr>extractable = ext, algorithm = AES_GCM len, usages = us,
                            material = AesSecret k\<rparr>, g'))))"

text \<open>\<^verbatim>\<open>exportKey(format, key)\<close>.\<close>

definition subtle_exportKey ::
  "('pub, 'priv) provider \<Rightarrow> KeyFormat \<Rightarrow> ('pub, 'priv) CryptoKey \<Rightarrow> DOMException + ArrayBuffer" where
  "subtle_exportKey P format key =
     (if \<not> extractable key then Inl InvalidAccessError
      else (case (algorithm key, format) of
              (RSA_OAEP _ _ _, Spki) \<Rightarrow>
                (case material key of
                   RsaPublic pk \<Rightarrow> Inr (export_spki P pk)
                 | _ \<Rightarrow> Inl InvalidAccessError)
            | (RSA_OAEP _ _ _, Pkcs8) \<Rightarrow>
                (case material key of
                   RsaPrivate sk \<Rightarrow> Inr (export_pkcs8 P sk)
                 | _ \<Rightarrow> Inl InvalidAccessError)
            | (RSA_OAEP _ _ _, Raw) \<Rightarrow> Inl NotSupportedError
            | (AES_GCM _, Raw) \<Rightarrow>
                (case material key of
                   AesSecret k \<Rightarrow> Inr k
                 | _ \<Rightarrow> Inl InvalidAccessError)
            | (AES_GCM _, _) \<Rightarrow> Inl NotSupportedError))"

text \<open>\<^verbatim>\<open>importKey(format, keyData, algorithm, extractable, usages)\<close>, for the algorithm
  \<^verbatim>\<open>{name: 'RSA-OAEP', hash}\<close> and for \<^verbatim>\<open>{name: 'AES-GCM'}\<close>.\<close>

datatype ImportParams = RsaHashedImportParams HashAlgorithm | AesImportParams

definition subtle_importKey ::
  "('pub, 'priv) provider \<Rightarrow> KeyFormat \<Rightarrow> ArrayBuffer \<Rightarrow> ImportParams \<Rightarrow> bool \<Rightarrow> KeyUsage list
     \<Rightarrow> DOMException + ('pub, 'priv) CryptoKey" where
  "subtle_importKey P format keyData alg ext us =
     (case (alg, format) of
        (RsaHashedImportParams hash, Spki) \<Rightarrow>
          (if \<not> usages_within us [Encrypt, WrapKey] then Inl SyntaxError
           else (case import_spki P keyData of
                   None \<Rightarrow> Inl DataError
                 | Some pk \<Rightarrow>
                     Inr \<lparr>extractable = ext,
                          algorithm = RSA_OAEP (fst (rsa_public_params P pk))
                                        (snd (rsa_public_params P pk)) hash,
                          usages = us, material = RsaPublic pk\<rparr>))
      | (RsaHashedImportParams hash, Pkcs8) \<Rightarrow>
          (if \<not> usages_within us [Decrypt, UnwrapKey] then Inl SyntaxError
           else (case import_pkcs8 P keyData of
                   None \<Rightarrow> Inl DataError
                 | Some sk \<Rightarrow>
                     (if us = [] then Inl SyntaxError
                      else Inr \<lparr>extractable = ext,
                                algorithm = RSA_OAEP (fst (rsa_private_params P sk))
                                              (snd (rsa_private_params P sk)) hash,
                                usages = us, material = RsaPrivate sk\<rparr>)))
      | (RsaHashedImportParams hash, Raw) \<Rightarrow> Inl NotSupportedError
      | (AesImportParams, Raw) \<Rightarrow>
          (if \<not> usages_within us [Encrypt, Decrypt, WrapKey, UnwrapKey] then Inl SyntaxError
           else if length keyData \<noteq> 16 \<and> length keyData \<noteq> 24 \<and> length keyData \<noteq> 32
             then Inl DataError
           else if us = [] then Inl SyntaxError
           else Inr \<lparr>extractable = ext, algorithm = AES_GCM (8 * length keyData),
                     usages = us, material = AesSecret keyData\<rparr>)
      | (AesImportParams, _) \<Rightarrow> Inl NotSupportedError)"

text \<open>\<^verbatim>\<open>encrypt(algorithm, key, data)\<close> and \<^verbatim>\<open>decrypt(algorithm, key, data)\<close>, for
  \<^verbatim>\<open>{name: 'RSA-OAEP'}\<close> and \<^verbatim>\<open>{name: 'AES-GCM', iv}\<close>. The name must be the name of the
  key's algorithm, the key must have the usage, and an RSA key must be of the right
  type; each of these failures is an \<^verbatim>\<open>InvalidAccessError\<close>.\<close>

datatype CipherParams = RsaOaepParams | AesGcmParams "byte list"

definition subtle_encrypt ::
  "('pub, 'priv) provider \<Rightarrow> CipherParams \<Rightarrow> ('pub, 'priv) CryptoKey \<Rightarrow> ArrayBuffer \<Rightarrow> rng
     \<Rightarrow> (DOMException + ArrayBuffer) \<times> rng" where
  "subtle_encrypt P alg key data g =
     (case (alg, algorithm key) of
        (RsaOaepParams, RSA_OAEP _ _ hash) \<Rightarrow>
          (if Encrypt \<notin> set (usages key) then (Inl InvalidAccessError, g)
           else (case material key of
                   RsaPublic pk \<Rightarrow>
                     (case rsa_oaep_encrypt P hash pk data g of
                        (None, g') \<Rightarrow> (Inl OperationError, g')
                      | (Some c, g') \<Rightarrow> (Inr c, g'))
                 | _ \<Rightarrow> (Inl InvalidAccessError, g)))
      | (AesGcmParams iv, AES_GCM _) \<Rightarrow>
          (if Encrypt \<notin> set (usages key) then (Inl InvalidAccessError, g)
           else (case material key of
                   AesSecret k \<Rightarrow>
                     (case aes_gcm_encrypt P k iv data of
                        None \<Rightarrow> (Inl OperationError, g)
                      | Some c \<Rightarrow> (Inr c, g))
                 | _ \<Rightarrow> (Inl InvalidAccessError, g)))
      | _ \<Rightarrow> (Inl InvalidAccessError, g))"

definition subtle_decrypt ::
  "('pub, 'priv) provider \<Rightarrow> CipherParams \<Rightarrow> ('pub, 'priv) CryptoKey \<Rightarrow> ArrayBuffer
     \<Rightarrow> DOMException + ArrayBuffer" where
  "subtle_decrypt P alg key data =
     (case (alg, algorithm key) of
        (RsaOaepParams, RSA_OAEP _ _ hash) \<Rightarrow>
          (if Decrypt \<notin> set (usages key) then Inl InvalidAccessError
           else (case material key of
                   RsaPrivate sk \<Rightarrow>
                     (case rsa_oaep_decrypt P hash sk data of
                        None \<Rightarrow> Inl OperationError
                      | Some m \<Rightarrow> Inr m)
                 | _ \<Rightarrow> Inl InvalidAccessError))
      | (AesGcmParams iv, AES_GCM _) \<Rightarrow>
          (if Decrypt \<notin> set (usages key) then Inl InvalidAccessError
           else (case material key of
                   AesSecret k \<Rightarrow>
                     (if length data < 16 then Inl OperationError
                      else (case aes_gcm_decrypt P k iv data of
                              None \<Rightarrow> Inl OperationError
                            | Some m \<Rightarrow> Inr m))
                 | _ \<Rightarrow> Inl InvalidAccessError))
      | _ \<Rightarrow> Inl InvalidAccessError)"

section \<open>The cryptography module\<close>

text \<open>
  An \<^verbatim>\<open>async\<close> function that awaits fallible calls stops at the first one that throws
  and rejects with its exception: \<open>await_then\<close> for calls that do not draw randomness,
  \<open>await_rng\<close> for those that do.
\<close>

definition await_then :: "'e + 'a \<Rightarrow> ('a \<Rightarrow> 'e + 'b) \<Rightarrow> 'e + 'b" where
  "await_then r f = (case r of Inl e \<Rightarrow> Inl e | Inr x \<Rightarrow> f x)"

definition await_rng ::
  "('e + 'a) \<times> rng \<Rightarrow> ('a \<Rightarrow> rng \<Rightarrow> ('e + 'b) \<times> rng) \<Rightarrow> ('e + 'b) \<times> rng" where
  "await_rng r f = (case r of (Inl e, g) \<Rightarrow> (Inl e, g) | (Inr x, g) \<Rightarrow> f x g)"

subsection \<open>Key generation and the key codec\<close>

definition generateRSAKeyPair ::
  "('pub, 'priv) provider \<Rightarrow> rng \<Rightarrow> (DOMException + ('pub, 'priv) CryptoKeyPair) \<times> rng" where
  "generateRSAKeyPair P g =
     subtle_generateKey_RSA_OAEP P 4096 [1, 0, 1] SHA_256 True [Encrypt, Decrypt] g"

definition exportPublicKey ::
  "('pub, 'priv) provider \<Rightarrow> ('pub, 'priv) CryptoKey \<Rightarrow> DOMException + jsstring" where
  "exportPublicKey P key =
     await_then (subtle_exportKey P Spki key) (\<lambda>exported.
     await_then (arrayBufferToBase64 exported) (\<lambda>exportedAsBase64.
     Inr (PEM_HEADER @ [0x0A] @ exportedAsBase64 @ [0x0A] @ PEM_FOOTER)))"

definition importPublicKey ::
  "('pub, 'priv) provider \<Rightarrow> jsstring \<Rightarrow> DOMException + ('pub, 'priv) CryptoKey" where
  "importPublicKey P pem =
     (let pemContents =
            replace_newlines (replace_first PEM_FOOTER (replace_first PEM_HEADER pem)) in
      await_then (base64ToArrayBuffer pemContents) (\<lambda>binaryKey.
      subtle_importKey P Spki binaryKey (RsaHashedImportParams SHA_256) True [Encrypt]))"

definition exportPrivateKey ::
  "('pub, 'priv) provider \<Rightarrow> ('pub, 'priv) CryptoKey \<Rightarrow> DOMException + jsstring" where
  "exportPrivateKey P key =
     await_then (subtle_exportKey P Pkcs8 key) (\<lambda>exported.
     arrayBufferToBase64 exported)"

definition importPrivateKey ::
  "('pub, 'priv) provider \<Rightarrow> jsstring \<Rightarrow> DOMException + ('pub, 'priv) CryptoKey" where
  "importPrivateKey P keyData =
     await_then (base64ToArrayBuffer keyData) (\<lambda>binaryKey.
     subtle_importKey P Pkcs8 binaryKey (RsaHashedImportParams SHA_256) True [Decrypt])"

subsection \<open>Hybrid encryption\<close>

record EncryptedMessage =
  ciphertext :: jsstring
  iv :: jsstring
  encryptedKey :: jsstring

definition encryptMessage ::
  "('pub, 'priv) provider \<Rightarrow> jsstring \<Rightarrow> ('pub, 'priv) CryptoKey \<Rightarrow> rng
     \<Rightarrow> (DOMException + EncryptedMessage) \<times> rng" where
  "encryptMessage P message recipientPublicKey g =
     await_rng (subtle_generateKey_AES_GCM 256 True [Encrypt, Decrypt] g) (\<lambda>aesKey g1.
     (case getRandomValues 12 g1 of (ivBytes, g2) \<Rightarrow>
     (let encodedMessage = TextEncoder_encode message in
     await_rng (subtle_encrypt P (AesGcmParams ivBytes) aesKey encodedMessage g2)
       (\<lambda>ciphertextBuffer g3.
     await_rng (subtle_exportKey P Raw aesKey, g3) (\<lambda>exportedAesKey g4.
     await_rng (subtle_encrypt P RsaOaepParams recipientPublicKey exportedAesKey g4)
       (\<lambda>encryptedAesKey g5.
     await_rng (arrayBufferToBase64 ciphertextBuffer, g5) (\<lambda>c g6.
     await_rng (arrayBufferToBase64 ivBytes, g6) (\<lambda>i g7.
     await_rng (arrayBufferToBase64 encryptedAesKey, g7) (\<lambda>k g8.
     (Inr \<lparr>ciphertext = c, iv = i, encryptedKey = k\<rparr>, g8))))))))))"

definition decryptMessage ::
  "('pub, 'priv) provider \<Rightarrow> jsstring \<Rightarrow> jsstring \<Rightarrow> jsstring \<Rightarrow> ('pub, 'priv) CryptoKey
     \<Rightarrow> DOMException + jsstring" where
  "decryptMessage P ciphertextB64 ivB64 encryptedKeyB64 privKey =
     await_then (base64ToArrayBuffer encryptedKeyB64) (\<lambda>encryptedAesKeyBuffer.
     await_then (subtle_decrypt P RsaOaepParams privKey encryptedAesKeyBuffer) (\<lambda>aesKeyBuffer.
     await_then (subtle_importKey P Raw aesKeyBuffer AesImportParams False [Decrypt]) (\<lambda>aesKey.
     await_then (base64ToArrayBuffer ivB64) (\<lambda>ivBuffer.
     await_then (base64ToArrayBuffer ciphertextB64) (\<lambda>ciphertextBuffer.
     await_then (subtle_decrypt P (AesGcmParams ivBuffer) aesKey ciphertextBuffer)
       (\<lambda>decryptedBuffer.
     Inr (TextDecoder_decode decryptedBuffer)))))))"

text \<open>Decrypting an envelope: the three fields go to \<open>decryptMessage\<close> as they are.\<close>

definition decryptEnvelope ::
  "('pub, 'priv) provider \<Rightarrow> EncryptedMessage \<Rightarrow> ('pub, 'priv) CryptoKey
     \<Rightarrow> DOMException + jsstring" where
  "decryptEnvelope P E privKey = decryptMessage P (ciphertext E) (iv E) (encryptedKey E) privKey"

section \<open>The key store\<close>

text \<open>
  IndexedDB: a database has a version and named object stores; the object store
  \<^verbatim>\<open>keys\<close> has the key path \<^verbatim>\<open>userId\<close>, so it holds at most one record per user id and
  \<^verbatim>\<open>put\<close> replaces the record of the same id.
\<close>

record KeyRecord =
  rec_userId :: jsstring
  rec_privateKey :: jsstring

type_synonym object_store = "jsstring \<rightharpoonup> KeyRecord"

record IDBDatabase =
  version :: nat
  objectStores :: "string \<rightharpoonup> object_store"

type_synonym IDBFactory = "string \<rightharpoonup> IDBDatabase"

text \<open>The \<^verbatim>\<open>onupgradeneeded\<close> handler of both functions: it creates the object store
  \<^verbatim>\<open>keys\<close> unless the database has it.\<close>

definition onupgradeneeded :: "IDBDatabase \<Rightarrow> IDBDatabase" where
  "onupgradeneeded db =
     (if objectStores db ''keys'' \<noteq> None then db
      else db\<lparr>objectStores := (objectStores db)(''keys'' \<mapsto> Map.empty)\<rparr>)"

text \<open>
  \<^verbatim>\<open>indexedDB.open(name, version)\<close>: a database that does not exist is created and
  upgraded; an older one is upgraded; a newer one is a \<^verbatim>\<open>VersionError\<close>.
\<close>

definition indexedDB_open ::
  "string \<Rightarrow> nat \<Rightarrow> (IDBDatabase \<Rightarrow> IDBDatabase) \<Rightarrow> IDBFactory
     \<Rightarrow> (DOMException + IDBDatabase) \<times> IDBFactory" where
  "indexedDB_open name ver upgrade F =
     (case F name of
        None \<Rightarrow>
          (let db = upgrade \<lparr>version = ver, objectStores = Map.empty\<rparr>
           in (Inr db, F(name \<mapsto> db)))
      | Some db \<Rightarrow>
          (if ver < version db then (Inl VersionError, F)
           else if version db < ver
             then (let db' = upgrade (db\<lparr>version := ver\<rparr>) in (Inr db', F(name \<mapsto> db')))
           else (Inr db, F)))"

text \<open>
  How the promise of a key store call ends. \<^verbatim>\<open>db.transaction(['keys'], ...)\<close> throws
  inside the \<^verbatim>\<open>onsuccess\<close> callback when the database has no object store \<^verbatim>\<open>keys\<close>; the
  promise is then neither resolved nor rejected.
\<close>

datatype 'a promise = Resolved 'a | Rejected DOMException | Pending

definition storePrivateKey ::
  "jsstring \<Rightarrow> jsstring \<Rightarrow> IDBFactory \<Rightarrow> unit promise \<times> IDBFactory" where
  "storePrivateKey uid privKeyStr F =
     (case indexedDB_open ''EncryptDB'' 1 onupgradeneeded F of
        (Inl e, F') \<Rightarrow> (Rejected e, F')
      | (Inr db, F') \<Rightarrow>
          (case objectStores db ''keys'' of
             None \<Rightarrow> (Pending, F')
           | Some store \<Rightarrow>
               (Resolved (),
                F'(''EncryptDB'' \<mapsto>
                     db\<lparr>objectStores := (objectStores db)(''keys'' \<mapsto>
                          store(uid \<mapsto> \<lparr>rec_userId = uid, rec_privateKey = privKeyStr\<rparr>))\<rparr>))))"

definition retrievePrivateKey ::
  "jsstring \<Rightarrow> IDBFactory \<Rightarrow> jsstring option promise \<times> IDBFactory" where
  "retrievePrivateKey uid F =
     (case indexedDB_open ''EncryptDB'' 1 onupgradeneeded F of
        (Inl e, F') \<Rightarrow> (Rejected e, F')
      | (Inr db, F') \<Rightarrow>
          (case objectStores db ''keys'' of
             None \<Rightarrow> (Pending, F')
           | Some store \<Rightarrow>
               (case store uid of
                  None \<Rightarrow> (Resolved None, F')
                | Some result \<Rightarrow> (Resolved (Some (rec_privateKey result)), F'))))"

text \<open>A sequence of calls on the key store, run one after the other on one device.\<close>

datatype keystore_call = Store jsstring jsstring | Retrieve jsstring

fun run_call :: "keystore_call \<Rightarrow> IDBFactory \<Rightarrow> IDBFactory" where
  "run_call (Store uid k) F = snd (storePrivateKey uid k F)"
| "run_call (Retrieve uid) F = snd (retrievePrivateKey uid F)"

fun run_calls :: "keystore_call list \<Rightarrow> IDBFactory \<Rightarrow> IDBFactory" where
  "run_calls [] F = F"
| "run_calls (c # cs) F = run_calls cs (run_call c F)"

text \<open>The material of the last \<open>Store\<close> for a user id in a sequence of calls, if any.\<close>

fun last_stored :: "jsstring \<Rightarrow> keystore_call list \<Rightarrow> jsstring option" where
  "last_stored uid [] = None"
| "last_stored uid (Store u k # cs) =
     (case last_stored uid cs of
        Some k' \<Rightarrow> Some k'
      | None \<Rightarrow> (if u = uid then Some k else None))"
| "last_stored uid (Retrieve u # cs) = last_stored uid cs"

section \<open>Notions used in the statements\<close>

subsection \<open>The key store\<close>

text \<open>
  The key store of a device is in order when the database \<^verbatim>\<open>EncryptDB\<close> does not exist
  yet or is at version 1 with its object store \<^verbatim>\<open>keys\<close>: the states that the module's
  own calls produce. \<open>stored_key F uid\<close> is the material held for \<open>uid\<close>.
\<close>

definition keystore_ok :: "IDBFactory \<Rightarrow> bool" where
  "keystore_ok F =
     (case F ''EncryptDB'' of
        None \<Rightarrow> True
      | Some db \<Rightarrow> version db = 1 \<and> objectStores db ''keys'' \<noteq> None)"

definition stored_key :: "IDBFactory \<Rightarrow> jsstring \<Rightarrow> jsstring option" where
  "stored_key F uid =
     (case F ''EncryptDB'' of
        None \<Rightarrow> None
      | Some db \<Rightarrow>
          (case objectStores db ''keys'' of
             None \<Rightarrow> None
           | Some store \<Rightarrow> map_option rec_privateKey (store uid)))"

subsection \<open>What \<open>importPublicKey\<close> decodes\<close>

text \<open>The \<^verbatim>\<open>pemContents\<close> of \<open>importPublicKey\<close>: the record without the first header, the
  first footer and the line feeds.\<close>

definition pem_contents :: "jsstring \<Rightarrow> jsstring" where
  "pem_contents pem = replace_newlines (replace_first PEM_FOOTER (replace_first PEM_HEADER pem))"

subsection \<open>Encrypting and then decrypting\<close>

text \<open>\<open>decrypt_encrypted P msg pub priv g\<close> is
  \<^verbatim>\<open>decryptMessage(E.ciphertext, E.iv, E.encryptedKey, priv)\<close> for
  \<^verbatim>\<open>E = encryptMessage(msg, pub)\<close>, the random source being \<open>g\<close>.\<close>

definition decrypt_encrypted ::
  "('pub, 'priv) provider \<Rightarrow> jsstring \<Rightarrow> ('pub, 'priv) CryptoKey \<Rightarrow> ('pub, 'priv) CryptoKey
     \<Rightarrow> rng \<Rightarrow> DOMException + jsstring" where
  "decrypt_encrypted P msg pub priv g =
     await_then (fst (encryptMessage P msg pub g)) (\<lambda>E. decryptEnvelope P E priv)"




subsection \<open>Assumptions on the provider\<close>

text \<open>
  What the statements below ask of the provider's primitives. The first four are the
  functional correctness of RSA-OAEP, AES-GCM and the two key encodings: decryption
  inverts encryption (of a 32-byte message under a key pair generated as the module
  generates it, with a modulus of 4096 bits and the exponent 65537; under a 32-byte key
  and a 12-byte nonce), and parsing inverts serialising.
\<close>

definition oaep_inverts :: "('pub, 'priv) provider \<Rightarrow> 'pub \<Rightarrow> 'priv \<Rightarrow> bool" where
  "oaep_inverts P pk sk =
     (\<forall>m g. length m = 32 \<longrightarrow>
        (case fst (rsa_oaep_encrypt P SHA_256 pk m g) of
           None \<Rightarrow> False
         | Some c \<Rightarrow> rsa_oaep_decrypt P SHA_256 sk c = Some m))"

definition rsa_correct :: "('pub, 'priv) provider \<Rightarrow> bool" where
  "rsa_correct P =
     (\<forall>g pk sk. fst (rsa_generate P 4096 [1, 0, 1] g) = Some (pk, sk) \<longrightarrow>
        oaep_inverts P pk sk)"

definition gcm_correct :: "('pub, 'priv) provider \<Rightarrow> bool" where
  "gcm_correct P =
     (\<forall>k nonce m. length k = 32 \<and> length nonce = 12 \<longrightarrow>
        (case aes_gcm_encrypt P k nonce m of
           None \<Rightarrow> False
         | Some c \<Rightarrow> 16 \<le> length c \<and> aes_gcm_decrypt P k nonce c = Some m))"

definition spki_roundtrip :: "('pub, 'priv) provider \<Rightarrow> bool" where
  "spki_roundtrip P = (\<forall>pk. import_spki P (export_spki P pk) = Some pk)"

definition pkcs8_roundtrip :: "('pub, 'priv) provider \<Rightarrow> bool" where
  "pkcs8_roundtrip P = (\<forall>sk. import_pkcs8 P (export_pkcs8 P sk) = Some sk)"




subsection \<open>A provider to compute with\<close>

text \<open>
  A small provider on which the module can be run on concrete inputs. It is not a
  cipher: a key pair is two copies of two random bytes, a wrapped message is the
  message, the key and the message again, and an AES-GCM output is the message, the key,
  the nonce and the message again. It has the properties assumed above, which shows
  that they can hold together.
\<close>

definition toy_rsa_decrypt :: "byte list \<Rightarrow> byte list \<Rightarrow> byte list option" where
  "toy_rsa_decrypt sk c =
     (let m = take ((length c - length sk) div 2) c in
      if c = m @ sk @ m then Some m else None)"

definition toy_gcm_decrypt :: "byte list \<Rightarrow> byte list \<Rightarrow> byte list \<Rightarrow> byte list option" where
  "toy_gcm_decrypt k nonce c =
     (let m = take ((length c - (length k + length nonce)) div 2) c in
      if c = m @ k @ nonce @ m then Some m else None)"

definition toy_import :: "byte \<Rightarrow> byte list \<Rightarrow> byte list option" where
  "toy_import tag bs =
     (case bs of
        [] \<Rightarrow> None
      | t # r \<Rightarrow> (if t = tag then Some r else None))"

definition toy_provider :: "(byte list, byte list) provider" where
  "toy_provider =
     \<lparr>rsa_generate = (\<lambda>ml pe g. case getRandomValues 2 g of (kid, g') \<Rightarrow> (Some (kid, kid), g')),
      rsa_public_params = (\<lambda>pk. (4096, [1, 0, 1])),
      rsa_private_params = (\<lambda>sk. (4096, [1, 0, 1])),
      export_spki = (\<lambda>pk. 0x30 # pk),
      import_spki = toy_import 0x30,
      export_pkcs8 = (\<lambda>sk. 0x31 # sk),
      import_pkcs8 = toy_import 0x31,
      rsa_oaep_encrypt = (\<lambda>h pk m g. (if length m \<le> 446 then Some (m @ pk @ m) else None, g)),
      rsa_oaep_decrypt = (\<lambda>h sk c. toy_rsa_decrypt sk c),
      aes_gcm_encrypt = (\<lambda>k nonce m. Some (m @ k @ nonce @ m)),
      aes_gcm_decrypt = toy_gcm_decrypt\<rparr>"

text \<open>A random source that counts, and one that always returns zero.\<close>

definition counting_rng :: rng where
  "counting_rng = (\<lambda>i. of_nat i)"

definition zero_rng :: rng where
  "zero_rng = (\<lambda>i. 0)"

text \<open>The key pairs that \<open>generateRSAKeyPair\<close> returns on this provider from the two
  random sources.\<close>

definition toy_pair :: "(byte list, byte list) CryptoKeyPair" where
  "toy_pair =
     \<lparr>publicKey = \<lparr>extractable = True, algorithm = RSA_OAEP 4096 [1, 0, 1] SHA_256,
                    usages = [Encrypt], material = RsaPublic [0, 1]\<rparr>,
      privateKey = \<lparr>extractable = True, algorithm = RSA_OAEP 4096 [1, 0, 1] SHA_256,
                     usages = [Decrypt], material = RsaPrivate [0, 1]\<rparr>\<rparr>"


text \<open>The envelope of the message \<^verbatim>\<open>"A"\<close> for the public key of \<open>toy_pair\<close>, when the random
  source returns zeros.\<close>

definition toy_envelope :: EncryptedMessage where
  "toy_envelope =
     \<lparr>ciphertext = js ''QQAAAAAAAAAAAAAAAAAAAAAAAAAAAAAAAAAAAAAAAAAAAAAAAAAAAAAAAAAAQQ=='',
      iv = js ''AAAAAAAAAAAAAAAA'',
      encryptedKey = js ''AAAAAAAAAAAAAAAAAAAAAAAAAAAAAAAAAAAAAAAAAAAAAQAAAAAAAAAAAAAAAAAAAAAAAAAAAAAAAAAAAAAAAAAA''\<rparr>"

subsection \<open>What one call draws, and two calls in a row\<close>

text \<open>The first 32 bytes of the random source and the 12 bytes after them.\<close>

definition drawn_key :: "rng \<Rightarrow> byte list" where
  "drawn_key g = fst (getRandomValues 32 g)"

definition drawn_nonce :: "rng \<Rightarrow> byte list" where
  "drawn_nonce g = fst (getRandomValues 12 (snd (getRandomValues 32 g)))"

text \<open>Two calls of \<open>encryptMessage\<close> with the same plaintext and the same key, the second on
  the random source that the first has left; the result is the \<open>iv\<close> field of each.\<close>

definition two_ivs ::
  "('pub, 'priv) provider \<Rightarrow> jsstring \<Rightarrow> ('pub, 'priv) CryptoKey \<Rightarrow> rng
     \<Rightarrow> (DOMException + jsstring) \<times> (DOMException + jsstring)" where
  "two_ivs P msg pub g =
     (case encryptMessage P msg pub g of
        (r1, g1) \<Rightarrow> (map_sum id iv r1, map_sum id iv (fst (encryptMessage P msg pub g1))))"

subsection \<open>A field that was tampered with\<close>


section \<open>Properties of the base64 helpers\<close>

lemma b64_value_char: "n < 64 \<Longrightarrow> b64_value (b64_char n) = Some n"
  by (auto simp: b64_char_def b64_value_def unat_of_nat Let_def)
lemma ucast_byte: "(ucast (ucast (b::byte) :: code_unit) :: byte) = b"
  by (simp add: ucast_up_ucast_id is_up)
lemma unat_byte_lt: "unat (b::byte) < 256"
  using unsigned_less [of b, where ?'a = nat] by simp
lemma unat_ucast_byte: "unat (ucast (b::byte) :: code_unit) = unat b"
  using unat_byte_lt [of b] by (simp add: unsigned_ucast_eq take_bit_eq_mod)
lemma ucast_byte_le: "\<not> (0xFF < (ucast (b::byte) :: code_unit))"
  using unat_byte_lt [of b] by (simp add: word_less_nat_alt unat_ucast_byte)

lemma btoa_bytes: "btoa (map ucast (bs :: byte list)) = Inr (base64_encode bs)"
proof -
  have "\<not> list_ex (\<lambda>c. 0xFF < c) (map ucast bs :: jsstring)"
    by (simp add: list_ex_iff ucast_byte_le)
  moreover have "map ucast (map ucast bs :: jsstring) = bs"
    by (simp add: ucast_byte comp_def)
  ultimately show ?thesis by (simp add: btoa_def)
qed

lemma encode_sextets_lt: "\<forall>v \<in> set (encode_sextets bs). v < 64"
proof (induction bs rule: encode_sextets.induct)
  case (1 a b c rest)
  have "unat a < 256" "unat b < 256" "unat c < 256" by (rule unat_byte_lt)+
  with 1 show ?case by auto
next
  case (2 a b)
  have "unat a < 256" "unat b < 256" by (rule unat_byte_lt)+
  then show ?case by auto
next
  case (3 a)
  have "unat a < 256" by (rule unat_byte_lt)
  then show ?case by auto
qed simp

lemma byte_eq: "unat (b::byte) = n \<Longrightarrow> (of_nat n :: byte) = b"
  by auto

lemma decode_encode_sextets: "decode_sextets (encode_sextets bs) = bs"
proof (induction bs rule: encode_sextets.induct)
  case (1 a b c rest)
  have "unat a div 4 * 4 + (unat a mod 4 * 16 + unat b div 16) div 16 = unat a"
       "(unat a mod 4 * 16 + unat b div 16) mod 16 * 16 + (unat b mod 16 * 4 + unat c div 64) div 4 = unat b"
       "(unat b mod 16 * 4 + unat c div 64) mod 4 * 64 + unat c mod 64 = unat c"
    using unat_byte_lt [of a] unat_byte_lt [of b] unat_byte_lt [of c] by auto
  with 1 show ?case by (cases rest) (auto simp: byte_eq)
next
  case (2 a b)
  have "unat a div 4 * 4 + (unat a mod 4 * 16 + unat b div 16) div 16 = unat a"
       "(unat a mod 4 * 16 + unat b div 16) mod 16 * 16 + (unat b mod 16 * 4) div 4 = unat b"
    using unat_byte_lt [of a] unat_byte_lt [of b] by auto
  then show ?case by (simp add: byte_eq)
next
  case (3 a)
  have "unat a div 4 * 4 + (unat a mod 4 * 16) div 16 = unat a"
    using unat_byte_lt [of a] by auto
  then show ?case by (simp add: byte_eq)
qed simp

lemma length_encode_sextets:
  "length (encode_sextets bs) = 4 * (length bs div 3) + (if length bs mod 3 = 0 then 0 else length bs mod 3 + 1)"
  by (induction bs rule: encode_sextets.induct) (auto simp: div_add_self1)

lemma b64_values_map: "\<forall>v \<in> set vs. v < 64 \<Longrightarrow> b64_values (map b64_char vs) = Some vs"
  by (induction vs) (auto simp: b64_value_char)

lemma b64_char_not_ws: "n < 64 \<Longrightarrow> \<not> is_ascii_whitespace (b64_char n)"
  by (auto simp: b64_char_def is_ascii_whitespace_def word_eq_iff_unsigned [where ?'a = nat] unat_of_nat)

lemma b64_char_not_pad: "n < 64 \<Longrightarrow> b64_char n \<noteq> 0x3D"
  by (auto simp: b64_char_def word_eq_iff_unsigned [where ?'a = nat] unat_of_nat)

lemma last_b64_not_pad:
  assumes "\<forall>v \<in> set vs. v < 64" "vs \<noteq> []"
  shows "last (map b64_char vs) \<noteq> 0x3D"
proof -
  have "last vs \<in> set vs" using assms(2) by simp
  then have "last vs < 64" using assms(1) by blast
  then show ?thesis using assms(2) by (simp add: last_map b64_char_not_pad)
qed

lemma strip_padding_encode:
  "strip_padding (base64_encode bs) = map b64_char (encode_sextets bs)"
proof -
  let ?sx = "encode_sextets bs"
  let ?m = "map b64_char ?sx"
  have lt: "\<forall>v \<in> set ?sx. v < 64" by (rule encode_sextets_lt)
  have len: "length ?m = 4 * (length bs div 3) + (if length bs mod 3 = 0 then 0 else length bs mod 3 + 1)"
    by (simp add: length_encode_sextets)
  consider (zero) "length bs mod 3 = 0" | (one) "length bs mod 3 = 1" | (two) "length bs mod 3 = 2"
    by linarith
  then show ?thesis
  proof cases
    case zero
    then have enc: "base64_encode bs = ?m" by (simp add: base64_encode_def base64_padding_def)
    have "?m \<noteq> [] \<Longrightarrow> last ?m \<noteq> 0x3D"
      using last_b64_not_pad [OF lt] by simp
    then show ?thesis unfolding enc strip_padding_def by auto
  next
    case one
    then have enc: "base64_encode bs = ?m @ [0x3D, 0x3D]"
      by (simp add: base64_encode_def base64_padding_def numeral_2_eq_2)
    have "length (?m @ [0x3D, 0x3D]) mod 4 = 0" using len one by simp
    then show ?thesis unfolding enc strip_padding_def by (simp add: butlast_append)
  next
    case two
    then have enc: "base64_encode bs = ?m @ [0x3D]"
      by (simp add: base64_encode_def base64_padding_def)
    have l4: "length (?m @ [0x3D]) mod 4 = 0" using len two by simp
    have ne: "?sx \<noteq> []" using len two by auto
    have "last ?m \<noteq> 0x3D" by (rule last_b64_not_pad [OF lt ne])
    then show ?thesis unfolding enc strip_padding_def using l4 ne by (simp add: butlast_append)
  qed
qed

lemma filter_ws_encode:
  "filter (\<lambda>c. \<not> is_ascii_whitespace c) (base64_encode bs) = base64_encode bs"
proof -
  have "\<forall>c \<in> set (map b64_char (encode_sextets bs)). \<not> is_ascii_whitespace c"
    using encode_sextets_lt [of bs] by (auto simp: b64_char_not_ws)
  moreover have "\<forall>c \<in> set (base64_padding (length bs)). \<not> is_ascii_whitespace c"
    by (simp add: base64_padding_def is_ascii_whitespace_def)
  ultimately show ?thesis by (simp add: base64_encode_def)
qed

lemma length_sextets_mod4: "length (encode_sextets bs) mod 4 \<noteq> 1"
proof -
  have "length bs mod 3 = 0 \<or> length bs mod 3 = 1 \<or> length bs mod 3 = 2" by linarith
  then show ?thesis by (auto simp: length_encode_sextets)
qed

lemma atob_encode: "atob (base64_encode bs) = Inr (map ucast bs)"
  using length_sextets_mod4 [of bs]
  by (simp add: atob_def filter_ws_encode strip_padding_encode
      b64_values_map [OF encode_sextets_lt] decode_encode_sextets)

lemma arrayBufferToBase64_eq [simp]: "arrayBufferToBase64 b = Inr (base64_encode b)"
  by (simp add: arrayBufferToBase64_def btoa_bytes)

lemma base64ToArrayBuffer_encode [simp]: "base64ToArrayBuffer (base64_encode b) = Inr b"
  by (simp add: base64ToArrayBuffer_def atob_encode ucast_byte comp_def)

lemma replicate_2: "replicate 2 x = [x, x]"
  by (simp add: numeral_2_eq_2)

text \<open>
  Claim C10. For every byte sequence \<open>b\<close>, \<^verbatim>\<open>arrayBufferToBase64\<close> returns a string
  (it never throws), and \<^verbatim>\<open>base64ToArrayBuffer\<close> applied to that string returns a
  buffer holding exactly the bytes of \<open>b\<close>.
\<close>

theorem base64_roundtrip:
  "arrayBufferToBase64 b = Inr (base64_encode b) \<and> base64ToArrayBuffer (base64_encode b) = Inr b"
  by (simp add: arrayBufferToBase64_def base64ToArrayBuffer_def btoa_bytes atob_encode
      ucast_byte comp_def)

theorem base64_roundtrip_witness:
  "arrayBufferToBase64 [0x00, 0xFF, 0x10, 0x83] = Inr (js ''AP8Qgw=='') \<and>
   base64ToArrayBuffer (js ''AP8Qgw=='') = Inr [0x00, 0xFF, 0x10, 0x83]"
proof -
  have "base64_encode [0x00, 0xFF, 0x10, 0x83] = js ''AP8Qgw==''"
    by (simp add: base64_encode_def base64_padding_def replicate_2 b64_char_def js_def)
  then show ?thesis using base64_roundtrip [of "[0x00, 0xFF, 0x10, 0x83]"] by simp
qed

section \<open>Properties of the key store\<close>

lemma retrieve_result:
  "keystore_ok F \<Longrightarrow> fst (retrievePrivateKey uid F) = Resolved (stored_key F uid)"
  by (auto simp: keystore_ok_def retrievePrivateKey_def indexedDB_open_def onupgradeneeded_def
      stored_key_def Let_def split: option.splits)

lemma retrieve_state:
  "keystore_ok F \<Longrightarrow> keystore_ok (snd (retrievePrivateKey uid F)) \<and>
     stored_key (snd (retrievePrivateKey uid F)) u = stored_key F u"
  by (auto simp: keystore_ok_def retrievePrivateKey_def indexedDB_open_def onupgradeneeded_def
      stored_key_def Let_def split: option.splits)

lemma store_state:
  "keystore_ok F \<Longrightarrow> keystore_ok (snd (storePrivateKey uid k F)) \<and>
     stored_key (snd (storePrivateKey uid k F)) u = (if u = uid then Some k else stored_key F u)"
  by (auto simp: keystore_ok_def storePrivateKey_def indexedDB_open_def onupgradeneeded_def
      stored_key_def Let_def split: option.splits)

lemma store_result:
  "keystore_ok F \<Longrightarrow> fst (storePrivateKey uid k F) = Resolved ()"
  by (auto simp: keystore_ok_def storePrivateKey_def indexedDB_open_def onupgradeneeded_def
      Let_def split: option.splits)

lemma run_calls_state:
  "keystore_ok F \<Longrightarrow> keystore_ok (run_calls cs F) \<and>
     stored_key (run_calls cs F) u =
       (case last_stored u cs of Some k \<Rightarrow> Some k | None \<Rightarrow> stored_key F u)"
proof (induction cs arbitrary: F)
  case Nil
  then show ?case by simp
next
  case (Cons c cs)
  show ?case
  proof (cases c)
    case (Store uid k)
    have ok: "keystore_ok (run_call c F)"
      and sk: "stored_key (run_call c F) u = (if u = uid then Some k else stored_key F u)"
      using store_state [OF Cons.prems, of uid k u] Store by simp_all
    show ?thesis using Cons.IH [OF ok] sk Store by (auto split: option.splits)
  next
    case (Retrieve uid)
    have ok: "keystore_ok (run_call c F)"
      and sk: "stored_key (run_call c F) u = stored_key F u"
      using retrieve_state [OF Cons.prems, of uid u] Retrieve by simp_all
    show ?thesis using Cons.IH [OF ok] sk Retrieve by (auto split: option.splits)
  qed
qed

text \<open>
  Claim C7. On a device whose key store does not exist yet, after any sequence of
  \<^verbatim>\<open>storePrivateKey\<close> and \<^verbatim>\<open>retrievePrivateKey\<close> calls, \<^verbatim>\<open>retrievePrivateKey(u)\<close> resolves
  (it does not reject) with \<^verbatim>\<open>null\<close> when no call stored material for \<open>u\<close>, whatever was
  stored for other ids, and otherwise with exactly the material of the last store for
  \<open>u\<close>.
\<close>

theorem keystore_last_write_wins:
  "F ''EncryptDB'' = None \<Longrightarrow>
   fst (retrievePrivateKey uid (run_calls cs F)) = Resolved (last_stored uid cs)"
proof -
  assume fresh: "F ''EncryptDB'' = None"
  then have ok: "keystore_ok F" and none: "stored_key F uid = None"
    by (simp_all add: keystore_ok_def stored_key_def)
  have "stored_key (run_calls cs F) uid = last_stored uid cs"
    using run_calls_state [OF ok, of cs uid] none by (simp split: option.splits)
  moreover have "keystore_ok (run_calls cs F)" using run_calls_state [OF ok] by simp
  ultimately show ?thesis by (simp add: retrieve_result)
qed

lemma js_u1: "js ''u1'' = [0x75, 0x31]" by (simp add: js_def)
lemma js_u2: "js ''u2'' = [0x75, 0x32]" by (simp add: js_def)

theorem keystore_last_write_wins_witness:
  "(Map.empty :: IDBFactory) ''EncryptDB'' = None \<and>
   fst (retrievePrivateKey (js ''u1'')
          (run_calls [Store (js ''u1'') (js ''old''), Store (js ''u2'') (js ''other''),
                      Store (js ''u1'') (js ''deadbeef'')] Map.empty)) =
     Resolved (Some (js ''deadbeef'')) \<and>
   fst (retrievePrivateKey (js ''u2'')
          (run_calls [Store (js ''u1'') (js ''deadbeef'')] Map.empty)) = Resolved None"
  using keystore_last_write_wins [of Map.empty "js ''u1''"
          "[Store (js ''u1'') (js ''old''), Store (js ''u2'') (js ''other''),
            Store (js ''u1'') (js ''deadbeef'')]"]
        keystore_last_write_wins [of Map.empty "js ''u2''" "[Store (js ''u1'') (js ''deadbeef'')]"]
  by (simp add: js_u1 js_u2)

section \<open>Properties of the text encoding\<close>

lemma unat_byte_of_nat: "n < 256 \<Longrightarrow> unat (of_nat n :: byte) = n"
  by (simp add: unat_of_nat)

lemma unat_code_unit_lt: "unat (c::code_unit) < 65536"
  using unsigned_less [of c, where ?'a = nat] by simp

lemma dec1:
  "unat b \<le> 0x7F \<Longrightarrow>
   utf8_decoder 0 0 0 0x80 0xBF (b # bs) = unat b # utf8_decoder 0 0 0 0x80 0xBF bs"
  by simp

lemma dec2:
  assumes "0xC2 \<le> unat b1" "unat b1 \<le> 0xDF" "0x80 \<le> unat b2" "unat b2 \<le> 0xBF"
  shows "utf8_decoder 0 0 0 0x80 0xBF (b1 # b2 # bs) =
         (unat b1 mod 32 * 64 + unat b2 mod 64) # utf8_decoder 0 0 0 0x80 0xBF bs"
  using assms by simp

lemma dec3:
  assumes "0xE0 \<le> unat b1" "unat b1 \<le> 0xEF"
    "(if unat b1 = 0xE0 then 0xA0 else 0x80) \<le> unat b2"
    "unat b2 \<le> (if unat b1 = 0xED then 0x9F else 0xBF)"
    "0x80 \<le> unat b3" "unat b3 \<le> 0xBF"
  shows "utf8_decoder 0 0 0 0x80 0xBF (b1 # b2 # b3 # bs) =
         ((unat b1 mod 16 * 64 + unat b2 mod 64) * 64 + unat b3 mod 64)
           # utf8_decoder 0 0 0 0x80 0xBF bs"
proof -
  let ?lo = "if unat b1 = 0xE0 then 0xA0 else (0x80::nat)"
  let ?hi = "if unat b1 = 0xED then 0x9F else (0xBF::nat)"
  have 1: "utf8_decoder 0 0 0 0x80 0xBF (b1 # b2 # b3 # bs) =
           utf8_decoder (unat b1 mod 16) 0 2 ?lo ?hi (b2 # b3 # bs)"
    using assms(1,2) by (subst utf8_decoder.simps) simp
  have 2: "utf8_decoder (unat b1 mod 16) 0 2 ?lo ?hi (b2 # b3 # bs) =
           utf8_decoder (unat b1 mod 16 * 64 + unat b2 mod 64) 1 2 0x80 0xBF (b3 # bs)"
    using assms(3,4) by (subst utf8_decoder.simps) simp
  have 3: "utf8_decoder (unat b1 mod 16 * 64 + unat b2 mod 64) 1 2 0x80 0xBF (b3 # bs) =
           ((unat b1 mod 16 * 64 + unat b2 mod 64) * 64 + unat b3 mod 64)
             # utf8_decoder 0 0 0 0x80 0xBF bs"
    using assms(5,6) by (subst utf8_decoder.simps) simp
  show ?thesis by (simp only: 1 2 3)
qed

lemma dec4:
  assumes "0xF0 \<le> unat b1" "unat b1 \<le> 0xF4"
    "(if unat b1 = 0xF0 then 0x90 else 0x80) \<le> unat b2"
    "unat b2 \<le> (if unat b1 = 0xF4 then 0x8F else 0xBF)"
    "0x80 \<le> unat b3" "unat b3 \<le> 0xBF" "0x80 \<le> unat b4" "unat b4 \<le> 0xBF"
  shows "utf8_decoder 0 0 0 0x80 0xBF (b1 # b2 # b3 # b4 # bs) =
         (((unat b1 mod 8 * 64 + unat b2 mod 64) * 64 + unat b3 mod 64) * 64 + unat b4 mod 64)
           # utf8_decoder 0 0 0 0x80 0xBF bs"
proof -
  let ?lo = "if unat b1 = 0xF0 then 0x90 else (0x80::nat)"
  let ?hi = "if unat b1 = 0xF4 then 0x8F else (0xBF::nat)"
  have 1: "utf8_decoder 0 0 0 0x80 0xBF (b1 # b2 # b3 # b4 # bs) =
           utf8_decoder (unat b1 mod 8) 0 3 ?lo ?hi (b2 # b3 # b4 # bs)"
    using assms(1,2) by (subst utf8_decoder.simps) simp
  have 2: "utf8_decoder (unat b1 mod 8) 0 3 ?lo ?hi (b2 # b3 # b4 # bs) =
           utf8_decoder (unat b1 mod 8 * 64 + unat b2 mod 64) 1 3 0x80 0xBF (b3 # b4 # bs)"
    using assms(3,4) by (subst utf8_decoder.simps) simp
  have 3: "utf8_decoder (unat b1 mod 8 * 64 + unat b2 mod 64) 1 3 0x80 0xBF (b3 # b4 # bs) =
           utf8_decoder ((unat b1 mod 8 * 64 + unat b2 mod 64) * 64 + unat b3 mod 64) 2 3
             0x80 0xBF (b4 # bs)"
    using assms(5,6) by (subst utf8_decoder.simps) simp
  have 4: "utf8_decoder ((unat b1 mod 8 * 64 + unat b2 mod 64) * 64 + unat b3 mod 64) 2 3
             0x80 0xBF (b4 # bs) =
           (((unat b1 mod 8 * 64 + unat b2 mod 64) * 64 + unat b3 mod 64) * 64 + unat b4 mod 64)
             # utf8_decoder 0 0 0 0x80 0xBF bs"
    using assms(7,8) by (subst utf8_decoder.simps) simp
  show ?thesis by (simp only: 1 2 3 4)
qed

lemma mod_add_mult: "(n::nat) < m \<Longrightarrow> (k * m + n) mod m = n"
  by simp
lemma utf8_arith_A: "(cp::nat) < 2048 \<Longrightarrow> (192 + cp div 64) mod 32 = cp div 64"
  using mod_add_mult [of "cp div 64" 32 6] by simp
lemma utf8_arith_B: "(128 + (x::nat) mod 64) mod 64 = x mod 64"
  using mod_add_mult [of "x mod 64" 64 2] by simp
lemma utf8_arith_C: "(cp::nat) < 65536 \<Longrightarrow> (224 + cp div 4096) mod 16 = cp div 4096"
  using mod_add_mult [of "cp div 4096" 16 14] by simp
lemma utf8_arith_D: "(cp::nat) < 0x110000 \<Longrightarrow> (240 + cp div 262144) mod 8 = cp div 262144"
  using mod_add_mult [of "cp div 262144" 8 30] by simp
lemma utf8_arith_F: "(cp::nat) div 4096 * 64 + cp div 64 mod 64 = cp div 64"
proof -
  have "cp div 4096 = cp div 64 div 64" by (simp add: div_mult2_eq [symmetric])
  then show ?thesis by simp
qed
lemma utf8_arith_G: "(cp::nat) div 262144 * 64 + cp div 4096 mod 64 = cp div 4096"
proof -
  have "cp div 262144 = cp div 4096 div 64" by (simp add: div_mult2_eq [symmetric])
  then show ?thesis by simp
qed
lemma utf8_arith_E: "(cp::nat) div 64 * 64 + cp mod 64 = cp" by simp

lemma decode_utf8_bytes:
  assumes "cp < 0x110000" "\<not> (0xD800 \<le> cp \<and> cp \<le> 0xDFFF)"
  shows "utf8_decoder 0 0 0 0x80 0xBF (utf8_bytes cp @ bs) = cp # utf8_decoder 0 0 0 0x80 0xBF bs"
proof -
  consider (one) "cp < 0x80" | (two) "0x80 \<le> cp" "cp < 0x800"
    | (three) "0x800 \<le> cp" "cp < 0x10000" | (four) "0x10000 \<le> cp"
    by linarith
  then show ?thesis
  proof cases
    case one
    then have u: "unat (of_nat cp :: byte) = cp" by (simp add: unat_byte_of_nat)
    have "utf8_bytes cp = [of_nat cp]" using one by (simp add: utf8_bytes_def)
    then show ?thesis using dec1 [of "of_nat cp" bs] u one by simp
  next
    case two
    let ?b1 = "of_nat (0xC0 + cp div 64) :: byte"
    let ?b2 = "of_nat (0x80 + cp mod 64) :: byte"
    have u1: "unat ?b1 = 0xC0 + cp div 64" using two by (intro unat_byte_of_nat) simp
    have u2: "unat ?b2 = 0x80 + cp mod 64" by (intro unat_byte_of_nat) simp
    have bytes: "utf8_bytes cp = [?b1, ?b2]" using two by (simp add: utf8_bytes_def)
    have "utf8_decoder 0 0 0 0x80 0xBF (?b1 # ?b2 # bs) =
          (unat ?b1 mod 32 * 64 + unat ?b2 mod 64) # utf8_decoder 0 0 0 0x80 0xBF bs"
      by (rule dec2; unfold u1 u2) (use two in simp_all)
    moreover have "unat ?b1 mod 32 * 64 + unat ?b2 mod 64 = cp"
      unfolding u1 u2 using two by (simp only: utf8_arith_A utf8_arith_B utf8_arith_E)
    ultimately show ?thesis by (simp add: bytes)
  next
    case three
    let ?b1 = "of_nat (0xE0 + cp div 4096) :: byte"
    let ?b2 = "of_nat (0x80 + (cp div 64) mod 64) :: byte"
    let ?b3 = "of_nat (0x80 + cp mod 64) :: byte"
    have u1: "unat ?b1 = 0xE0 + cp div 4096" using three by (intro unat_byte_of_nat) simp
    have u2: "unat ?b2 = 0x80 + (cp div 64) mod 64" by (intro unat_byte_of_nat) simp
    have u3: "unat ?b3 = 0x80 + cp mod 64" by (intro unat_byte_of_nat) simp
    have bytes: "utf8_bytes cp = [?b1, ?b2, ?b3]" using three by (simp add: utf8_bytes_def)
    have lo: "(if unat ?b1 = 0xE0 then 0xA0 else 0x80) \<le> unat ?b2"
      unfolding u1 u2 using three by auto
    have hi: "unat ?b2 \<le> (if unat ?b1 = 0xED then 0x9F else 0xBF)"
    proof (cases "cp div 4096 = 13")
      case True
      have "cp < 57344"
      proof (rule ccontr)
        assume "\<not> cp < 57344"
        then have "57344 div 4096 \<le> cp div 4096" by (intro div_le_mono) simp
        with True show False by simp
      qed
      then have "cp < 864 * 64" using assms(2) by simp
      then have x: "cp div 64 < 864" by (rule less_mult_imp_div_less)
      have "cp div 64 div 64 = 13" using True by (simp add: div_mult2_eq [symmetric])
      then have "13 * 64 + cp div 64 mod 64 = cp div 64"
        using div_mult_mod_eq [of "cp div 64" 64] by simp
      with x have "cp div 64 mod 64 < 32" by linarith
      then show ?thesis unfolding u1 u2 using True by simp
    next
      case False
      then show ?thesis unfolding u1 u2 by simp
    qed
    have "utf8_decoder 0 0 0 0x80 0xBF (?b1 # ?b2 # ?b3 # bs) =
          ((unat ?b1 mod 16 * 64 + unat ?b2 mod 64) * 64 + unat ?b3 mod 64)
            # utf8_decoder 0 0 0 0x80 0xBF bs"
      by (rule dec3 [OF _ _ lo hi]; unfold u1 u3) (use three in simp_all)
    moreover have "(unat ?b1 mod 16 * 64 + unat ?b2 mod 64) * 64 + unat ?b3 mod 64 = cp"
      unfolding u1 u2 u3 using three
      by (simp only: utf8_arith_C utf8_arith_B utf8_arith_F utf8_arith_E)
    ultimately show ?thesis by (simp add: bytes)
  next
    case four
    let ?b1 = "of_nat (0xF0 + cp div 262144) :: byte"
    let ?b2 = "of_nat (0x80 + (cp div 4096) mod 64) :: byte"
    let ?b3 = "of_nat (0x80 + (cp div 64) mod 64) :: byte"
    let ?b4 = "of_nat (0x80 + cp mod 64) :: byte"
    have u1: "unat ?b1 = 0xF0 + cp div 262144" using assms(1) by (intro unat_byte_of_nat) simp
    have u2: "unat ?b2 = 0x80 + (cp div 4096) mod 64" by (intro unat_byte_of_nat) simp
    have u3: "unat ?b3 = 0x80 + (cp div 64) mod 64" by (intro unat_byte_of_nat) simp
    have u4: "unat ?b4 = 0x80 + cp mod 64" by (intro unat_byte_of_nat) simp
    have bytes: "utf8_bytes cp = [?b1, ?b2, ?b3, ?b4]" using four by (simp add: utf8_bytes_def)
    have lo: "(if unat ?b1 = 0xF0 then 0x90 else 0x80) \<le> unat ?b2"
      unfolding u1 u2 using four by auto
    have hi: "unat ?b2 \<le> (if unat ?b1 = 0xF4 then 0x8F else 0xBF)"
    proof (cases "cp div 262144 = 4")
      case True
      have "cp < 272 * 4096" using assms(1) by simp
      then have x: "cp div 4096 < 272" by (rule less_mult_imp_div_less)
      have "cp div 4096 div 64 = 4" using True by (simp add: div_mult2_eq [symmetric])
      then have "4 * 64 + cp div 4096 mod 64 = cp div 4096"
        using div_mult_mod_eq [of "cp div 4096" 64] by simp
      with x have "cp div 4096 mod 64 < 16" by linarith
      then show ?thesis unfolding u1 u2 using True by simp
    next
      case False
      then show ?thesis unfolding u1 u2 by simp
    qed
    have "utf8_decoder 0 0 0 0x80 0xBF (?b1 # ?b2 # ?b3 # ?b4 # bs) =
          (((unat ?b1 mod 8 * 64 + unat ?b2 mod 64) * 64 + unat ?b3 mod 64) * 64 + unat ?b4 mod 64)
            # utf8_decoder 0 0 0 0x80 0xBF bs"
      by (rule dec4 [OF _ _ lo hi]; unfold u1 u3 u4) (use assms(1) in simp_all)
    moreover have "((unat ?b1 mod 8 * 64 + unat ?b2 mod 64) * 64 + unat ?b3 mod 64) * 64
                   + unat ?b4 mod 64 = cp"
      unfolding u1 u2 u3 u4 using assms(1)
      by (simp only: utf8_arith_D utf8_arith_B utf8_arith_G utf8_arith_F utf8_arith_E)
    ultimately show ?thesis by (simp add: bytes)
  qed
qed

lemma non_surrogate_range:
  assumes "\<not> is_high_surrogate c" "\<not> is_low_surrogate c"
  shows "unat c < 0x110000 \<and> \<not> (0xD800 \<le> unat c \<and> unat c \<le> 0xDFFF)"
proof -
  have "unat c < 65536" by (rule unat_code_unit_lt)
  moreover have "\<not> (0xD800 \<le> unat c \<and> unat c \<le> 0xDBFF)"
    using assms(1) unfolding is_high_surrogate_def by blast
  moreover have "\<not> (0xDC00 \<le> unat c \<and> unat c \<le> 0xDFFF)"
    using assms(2) unfolding is_low_surrogate_def by blast
  ultimately show ?thesis by linarith
qed

lemma pair_range:
  assumes "is_high_surrogate c" "is_low_surrogate d"
  shows "0x10000 + (unat c - 0xD800) * 0x400 + (unat d - 0xDC00) < 0x110000 \<and>
         \<not> (0xD800 \<le> 0x10000 + (unat c - 0xD800) * 0x400 + (unat d - 0xDC00) \<and>
            0x10000 + (unat c - 0xD800) * 0x400 + (unat d - 0xDC00) \<le> 0xDFFF)"
proof -
  have "unat c \<le> 0xDBFF" using assms(1) unfolding is_high_surrogate_def by blast
  then have "unat c - 0xD800 \<le> 0x3FF" by linarith
  then have "(unat c - 0xD800) * 0x400 \<le> 0x3FF * 0x400" by (rule mult_le_mono1)
  moreover have "unat d \<le> 0xDFFF" using assms(2) unfolding is_low_surrogate_def by blast
  ultimately show ?thesis by linarith
qed

lemma scalar_values_range:
  "cp \<in> set (to_scalar_values s) \<Longrightarrow> cp < 0x110000 \<and> \<not> (0xD800 \<le> cp \<and> cp \<le> 0xDFFF)"
proof (induction s arbitrary: cp rule: to_scalar_values.induct)
  case 1
  then show ?case by simp
next
  case (2 c)
  show ?case
  proof (cases "is_high_surrogate c \<or> is_low_surrogate c")
    case True
    with 2 have "cp = 0xFFFD" by simp
    then show ?thesis by simp
  next
    case False
    with 2 have "cp = unat c" by simp
    then show ?thesis using non_surrogate_range [of c] False by blast
  qed
next
  case (3 c d rest)
  show ?case
  proof (cases "is_high_surrogate c")
    case True
    show ?thesis
    proof (cases "is_low_surrogate d")
      case low: True
      from "3.prems" True low
      have "cp = 0x10000 + (unat c - 0xD800) * 0x400 + (unat d - 0xDC00)
              \<or> cp \<in> set (to_scalar_values rest)" by simp
      then show ?thesis
      proof
        assume "cp = 0x10000 + (unat c - 0xD800) * 0x400 + (unat d - 0xDC00)"
        then show ?thesis using pair_range [OF True low] by blast
      next
        assume "cp \<in> set (to_scalar_values rest)"
        then show ?thesis by (rule "3.IH"(1) [OF True low])
      qed
    next
      case nlow: False
      from "3.prems" True nlow
      have "cp = 0xFFFD \<or> cp \<in> set (to_scalar_values (d # rest))" by simp
      then show ?thesis
      proof
        assume "cp = 0xFFFD"
        then show ?thesis by simp
      next
        assume "cp \<in> set (to_scalar_values (d # rest))"
        then show ?thesis by (rule "3.IH"(2) [OF True nlow])
      qed
    qed
  next
    case False
    show ?thesis
    proof (cases "is_low_surrogate c")
      case low: True
      from "3.prems" False low
      have "cp = 0xFFFD \<or> cp \<in> set (to_scalar_values (d # rest))" by simp
      then show ?thesis
      proof
        assume "cp = 0xFFFD"
        then show ?thesis by simp
      next
        assume "cp \<in> set (to_scalar_values (d # rest))"
        then show ?thesis by (rule "3.IH"(3) [OF False low])
      qed
    next
      case nlow: False
      from "3.prems" False nlow
      have "cp = unat c \<or> cp \<in> set (to_scalar_values (d # rest))" by simp
      then show ?thesis
      proof
        assume "cp = unat c"
        then show ?thesis using non_surrogate_range [OF False nlow] by blast
      next
        assume "cp \<in> set (to_scalar_values (d # rest))"
        then show ?thesis by (rule "3.IH"(4) [OF False nlow])
      qed
    qed
  qed
qed

lemma decode_utf8_concat:
  "\<forall>cp \<in> set cps. cp < 0x110000 \<and> \<not> (0xD800 \<le> cp \<and> cp \<le> 0xDFFF) \<Longrightarrow>
   utf8_decoder 0 0 0 0x80 0xBF (concat (map utf8_bytes cps)) = cps"
  by (induction cps) (simp_all add: decode_utf8_bytes)

lemma of_nat_unat_code_unit: "(of_nat (unat c) :: code_unit) = c"
  by simp

lemma from_to_scalar_values: "isWellFormed s \<Longrightarrow> from_scalar_values (to_scalar_values s) = s"
proof (induction s rule: to_scalar_values.induct)
  case 1
  then show ?case by simp
next
  case (2 c)
  then show ?case using unat_code_unit_lt [of c] by simp
next
  case (3 c d rest)
  show ?case
  proof (cases "is_high_surrogate c")
    case True
    with "3.prems" have low: "is_low_surrogate d" and wf: "isWellFormed rest" by simp_all
    let ?x = "unat c - 0xD800" and ?y = "unat d - 0xDC00"
    have c: "0xD800 \<le> unat c" and d: "0xDC00 \<le> unat d" and y: "?y < 0x400"
      using True low by (auto simp: is_high_surrogate_def is_low_surrogate_def)
    have dv: "(?x * 0x400 + ?y) div 0x400 = ?x" using y by simp
    have md: "(?x * 0x400 + ?y) mod 0x400 = ?y" using y by simp
    have hi: "(of_nat (0xD800 + ?x) :: code_unit) = c"
      using c of_nat_unat_code_unit [of c] by (simp del: of_nat_unat of_nat_add)
    have lo: "(of_nat (0xDC00 + ?y) :: code_unit) = d"
      using d of_nat_unat_code_unit [of d] by (simp del: of_nat_unat of_nat_add)
    have ge: "\<not> (0x10000 + ?x * 0x400 + ?y < 0x10000)" by simp
    have sub: "0x10000 + ?x * 0x400 + ?y - 0x10000 = ?x * 0x400 + ?y" by simp
    have "to_scalar_values (c # d # rest) = (0x10000 + ?x * 0x400 + ?y) # to_scalar_values rest"
      using True low by simp
    then show ?thesis
      using "3.IH"(1) [OF True low wf] 
      by (simp only: from_scalar_values.simps ge if_False sub dv md hi lo)
  next
    case False
    with "3.prems" have nl: "\<not> is_low_surrogate c" and wf: "isWellFormed (d # rest)" by simp_all
    have "to_scalar_values (c # d # rest) = unat c # to_scalar_values (d # rest)"
      using False nl by simp
    then show ?thesis
      using "3.IH"(4) [OF False nl wf] unat_code_unit_lt [of c] by simp
  qed
qed

lemma code_unit_neq:
  assumes "c \<noteq> (0xFEFF :: code_unit)"
  shows "unat c \<noteq> 0xFEFF"
proof
  assume a: "unat c = 0xFEFF"
  have "c = of_nat (unat c)" by simp
  also have "\<dots> = 0xFEFF" unfolding a by simp
  finally show False using assms by simp
qed

lemma skip_BOM_scalar_values:
  "s = [] \<or> hd s \<noteq> 0xFEFF \<Longrightarrow> skip_BOM (to_scalar_values s) = to_scalar_values s"
proof (cases s rule: to_scalar_values.cases)
  case 1
  then show ?thesis by simp
next
  case (2 c)
  assume "s = [] \<or> hd s \<noteq> 0xFEFF"
  with 2 have "c \<noteq> 0xFEFF" by simp
  then have "unat c \<noteq> 0xFEFF" by (rule code_unit_neq)
  then show ?thesis using 2 by simp
next
  case (3 c d rest)
  assume "s = [] \<or> hd s \<noteq> 0xFEFF"
  with 3 have "c \<noteq> 0xFEFF" by simp
  then have "unat c \<noteq> 0xFEFF" by (rule code_unit_neq)
  then show ?thesis using 3 by simp
qed

lemma text_roundtrip:
  assumes "isWellFormed s" "s = [] \<or> hd s \<noteq> 0xFEFF"
  shows "TextDecoder_decode (TextEncoder_encode s) = s"
proof -
  have "utf8_decoder 0 0 0 0x80 0xBF (TextEncoder_encode s) = to_scalar_values s"
    unfolding TextEncoder_encode_def
    by (rule decode_utf8_concat) (use scalar_values_range in blast)
  then show ?thesis
    by (simp add: TextDecoder_decode_def skip_BOM_scalar_values [OF assms(2)]
        from_to_scalar_values [OF assms(1)])
qed

section \<open>Properties of the key handles\<close>

lemma await_then_Inr_iff:
  "await_then r f = Inr y \<longleftrightarrow> (\<exists>x. r = Inr x \<and> f x = Inr y)"
  by (cases r) (simp_all add: await_then_def)

lemma await_then_simps [simp]:
  "await_then (Inl e) f = Inl e" "await_then (Inr x) f = f x"
  by (simp_all add: await_then_def)

lemma await_rng_simps [simp]:
  "await_rng (Inl e, g) f = (Inl e, g)" "await_rng (Inr x, g) f = f x g"
  by (simp_all add: await_rng_def)

lemma subtle_decrypt_no_usage:
  "Decrypt \<notin> set (usages key) \<Longrightarrow> subtle_decrypt P alg key data = Inl InvalidAccessError"
  by (cases alg; cases "algorithm key") (simp_all add: subtle_decrypt_def)

lemma subtle_encrypt_no_usage:
  "Encrypt \<notin> set (usages key) \<Longrightarrow> fst (subtle_encrypt P alg key data g) = Inl InvalidAccessError"
  by (cases alg; cases "algorithm key") (simp_all add: subtle_encrypt_def)

lemma importPublicKey_Inr:
  assumes "importPublicKey P pem = Inr key"
  shows "\<exists>pk. key = \<lparr>extractable = True,
                      algorithm = RSA_OAEP (fst (rsa_public_params P pk))
                                    (snd (rsa_public_params P pk)) SHA_256,
                      usages = [Encrypt], material = RsaPublic pk\<rparr>"
  using assms
  by (auto simp: importPublicKey_def Let_def await_then_Inr_iff subtle_importKey_def
      usages_within_def split: option.splits)

lemma importPrivateKey_Inr:
  assumes "importPrivateKey P keyData = Inr key"
  shows "\<exists>sk. key = \<lparr>extractable = True,
                      algorithm = RSA_OAEP (fst (rsa_private_params P sk))
                                    (snd (rsa_private_params P sk)) SHA_256,
                      usages = [Decrypt], material = RsaPrivate sk\<rparr>"
  using assms
  by (auto simp: importPrivateKey_def await_then_Inr_iff subtle_importKey_def
      usages_within_def split: option.splits)

lemma decryptMessage_no_usage:
  assumes "Decrypt \<notin> set (usages key)"
  shows "isl (decryptMessage P c i k key)"
  by (cases "base64ToArrayBuffer k")
     (simp_all add: decryptMessage_def subtle_decrypt_no_usage [OF assms])

lemma generateKey_AES_256:
  "subtle_generateKey_AES_GCM 256 True [Encrypt, Decrypt] g =
     (Inr \<lparr>extractable = True, algorithm = AES_GCM 256, usages = [Encrypt, Decrypt],
           material = AesSecret (map g [0..<32])\<rparr>, \<lambda>i. g (32 + i))"
  by (simp add: subtle_generateKey_AES_GCM_def usages_within_def getRandomValues_def)

lemma encryptMessage_no_usage:
  assumes "Encrypt \<notin> set (usages key)"
  shows "isl (fst (encryptMessage P msg key g))"
proof -
  let ?aes = "\<lparr>extractable = True, algorithm = AES_GCM 256, usages = [Encrypt, Decrypt],
            material = AesSecret (map g [0..<32])\<rparr> :: ('a, 'b) CryptoKey"
  obtain nonce g2 where n: "getRandomValues 12 (\<lambda>i. g (32 + i)) = (nonce, g2)"
    by (cases "getRandomValues 12 (\<lambda>i. g (32 + i))")
  obtain r g3 where e: "subtle_encrypt P (AesGcmParams nonce) ?aes (TextEncoder_encode msg) g2 = (r, g3)"
    by (cases "subtle_encrypt P (AesGcmParams nonce) ?aes (TextEncoder_encode msg) g2")
  have x: "subtle_exportKey P Raw ?aes = Inr (map g [0..<32])"
    by (simp add: subtle_exportKey_def)
  obtain r' g5 where w: "subtle_encrypt P RsaOaepParams key (map g [0..<32]) g3 = (r', g5)"
    by (cases "subtle_encrypt P RsaOaepParams key (map g [0..<32]) g3")
  have "r' = Inl InvalidAccessError"
    using subtle_encrypt_no_usage [OF assms, of P RsaOaepParams "map g [0..<32]" g3] w by simp
  then show ?thesis
    by (cases r) (simp_all add: encryptMessage_def generateKey_AES_256 n e x w Let_def
          del: upt_rec_numeral)
qed

text \<open>
  Claim C8. A key handle returned by \<^verbatim>\<open>importPublicKey\<close> has the single usage
  \<^verbatim>\<open>encrypt\<close>, and every \<^verbatim>\<open>decryptMessage\<close> with it is rejected; a key handle returned by
  \<^verbatim>\<open>importPrivateKey\<close> has the single usage \<^verbatim>\<open>decrypt\<close>, and every \<^verbatim>\<open>encryptMessage\<close>
  with it is rejected.
\<close>

theorem imported_keys_single_use:
  "(importPublicKey P pem = Inr key \<longrightarrow>
      usages key = [Encrypt] \<and> key_type key = PublicKey \<and>
      (\<forall>c i k. isl (decryptMessage P c i k key))) \<and>
   (importPrivateKey P keyData = Inr key' \<longrightarrow>
      usages key' = [Decrypt] \<and> key_type key' = PrivateKey \<and>
      (\<forall>msg g. isl (fst (encryptMessage P msg key' g))))"
proof (intro conjI impI allI)
  assume a: "importPublicKey P pem = Inr key"
  from importPublicKey_Inr [OF a] show u: "usages key = [Encrypt]" by auto
  from importPublicKey_Inr [OF a] show "key_type key = PublicKey" by (auto simp: key_type_def)
  fix c i k
  show "isl (decryptMessage P c i k key)" by (rule decryptMessage_no_usage) (simp add: u)
next
  assume a: "importPrivateKey P keyData = Inr key'"
  from importPrivateKey_Inr [OF a] show u: "usages key' = [Decrypt]" by auto
  from importPrivateKey_Inr [OF a] show "key_type key' = PrivateKey" by (auto simp: key_type_def)
  fix msg g
  show "isl (fst (encryptMessage P msg key' g))" by (rule encryptMessage_no_usage) (simp add: u)
qed

section \<open>The module on a correct provider\<close>

lemma length_getRandomValues [simp]: "length (fst (getRandomValues n g)) = n"
  by (simp add: getRandomValues_def)

lemma generateKey_AES:
  "subtle_generateKey_AES_GCM 256 True [Encrypt, Decrypt] g =
     (Inr \<lparr>extractable = True, algorithm = AES_GCM 256, usages = [Encrypt, Decrypt],
           material = AesSecret (fst (getRandomValues 32 g))\<rparr>, snd (getRandomValues 32 g))"
  by (simp add: subtle_generateKey_AES_GCM_def usages_within_def split: prod.splits)

text \<open>The key, the nonce and the rest of the random source in \<open>encryptMessage\<close>.\<close>

lemma encryptMessage_eq:
  assumes "material pub = RsaPublic pk" "algorithm pub = RSA_OAEP ml pe h"
    "Encrypt \<in> set (usages pub)"
  shows "encryptMessage P msg pub g =
    (let k = fst (getRandomValues 32 g);
         nonce = fst (getRandomValues 12 (snd (getRandomValues 32 g)));
         g2 = snd (getRandomValues 12 (snd (getRandomValues 32 g)))
     in (case aes_gcm_encrypt P k nonce (TextEncoder_encode msg) of
           None \<Rightarrow> (Inl OperationError, g2)
         | Some ct \<Rightarrow>
             (case rsa_oaep_encrypt P h pk k g2 of
                (None, g') \<Rightarrow> (Inl OperationError, g')
              | (Some w, g') \<Rightarrow>
                  (Inr \<lparr>ciphertext = base64_encode ct, iv = base64_encode nonce,
                        encryptedKey = base64_encode w\<rparr>, g'))))"
  using assms
  by (simp add: encryptMessage_def generateKey_AES Let_def subtle_encrypt_def
      subtle_exportKey_def split: prod.splits option.splits)

lemma subtle_decrypt_rsa:
  assumes "material priv = RsaPrivate sk" "algorithm priv = RSA_OAEP ml pe h"
    "Decrypt \<in> set (usages priv)"
  shows "subtle_decrypt P RsaOaepParams priv w =
           (case rsa_oaep_decrypt P h sk w of None \<Rightarrow> Inl OperationError | Some m \<Rightarrow> Inr m)"
  using assms by (simp add: subtle_decrypt_def)

lemma subtle_importKey_raw:
  "subtle_importKey P Raw k AesImportParams False [Decrypt] =
     (if length k \<noteq> 16 \<and> length k \<noteq> 24 \<and> length k \<noteq> 32 then Inl DataError
      else Inr \<lparr>extractable = False, algorithm = AES_GCM (8 * length k), usages = [Decrypt],
                material = AesSecret k\<rparr>)"
  by (simp add: subtle_importKey_def usages_within_def)

lemma subtle_decrypt_aes:
  "subtle_decrypt P (AesGcmParams nonce)
     \<lparr>extractable = False, algorithm = AES_GCM n, usages = [Decrypt], material = AesSecret k\<rparr> ct =
     (if length ct < 16 then Inl OperationError
      else (case aes_gcm_decrypt P k nonce ct of None \<Rightarrow> Inl OperationError | Some m \<Rightarrow> Inr m))"
  by (simp add: subtle_decrypt_def)

lemma decryptMessage_eq:
  assumes "material priv = RsaPrivate sk" "algorithm priv = RSA_OAEP ml pe h"
    "Decrypt \<in> set (usages priv)"
    "base64ToArrayBuffer kB64 = Inr w" "base64ToArrayBuffer ivB64 = Inr nonce"
    "base64ToArrayBuffer cB64 = Inr ct"
  shows "decryptMessage P cB64 ivB64 kB64 priv =
    (case rsa_oaep_decrypt P h sk w of
       None \<Rightarrow> Inl OperationError
     | Some k \<Rightarrow>
         (if length k \<noteq> 16 \<and> length k \<noteq> 24 \<and> length k \<noteq> 32 then Inl DataError
          else if length ct < 16 then Inl OperationError
          else (case aes_gcm_decrypt P k nonce ct of
                  None \<Rightarrow> Inl OperationError
                | Some m \<Rightarrow> Inr (TextDecoder_decode m))))"
proof (cases "rsa_oaep_decrypt P h sk w")
  case None
  then show ?thesis
    by (simp add: decryptMessage_def assms(4) subtle_decrypt_rsa [OF assms(1,2,3)])
next
  case (Some k)
  show ?thesis
  proof (cases "length k \<noteq> 16 \<and> length k \<noteq> 24 \<and> length k \<noteq> 32")
    case True
    then show ?thesis
      by (simp add: decryptMessage_def assms(4) subtle_decrypt_rsa [OF assms(1,2,3)] Some
          subtle_importKey_raw)
  next
    case False
    then show ?thesis
      by (cases "aes_gcm_decrypt P k nonce ct")
         (simp_all add: decryptMessage_def assms(4,5,6) subtle_decrypt_rsa [OF assms(1,2,3)] Some
            subtle_importKey_raw subtle_decrypt_aes)
  qed
qed

lemma decrypt_encrypted_eq:
  assumes gcm: "gcm_correct P" and oaep: "oaep_inverts P pk sk"
    and pub: "material pub = RsaPublic pk" "algorithm pub = RSA_OAEP ml pe SHA_256"
             "Encrypt \<in> set (usages pub)"
    and priv: "material priv = RsaPrivate sk" "algorithm priv = RSA_OAEP ml' pe' SHA_256"
              "Decrypt \<in> set (usages priv)"
  shows "decrypt_encrypted P msg pub priv g = Inr (TextDecoder_decode (TextEncoder_encode msg))"
proof -
  let ?k = "fst (getRandomValues 32 g)"
  let ?nonce = "fst (getRandomValues 12 (snd (getRandomValues 32 g)))"
  let ?g2 = "snd (getRandomValues 12 (snd (getRandomValues 32 g)))"
  have lk: "length ?k = 32" and ln: "length ?nonce = 12" by simp_all
  obtain ct where ct: "aes_gcm_encrypt P ?k ?nonce (TextEncoder_encode msg) = Some ct"
    and lct: "16 \<le> length ct"
    and dct: "aes_gcm_decrypt P ?k ?nonce ct = Some (TextEncoder_encode msg)"
  proof -
    have "case aes_gcm_encrypt P ?k ?nonce (TextEncoder_encode msg) of
            None \<Rightarrow> False
          | Some c \<Rightarrow> 16 \<le> length c \<and>
                aes_gcm_decrypt P ?k ?nonce c = Some (TextEncoder_encode msg)"
      using gcm lk ln unfolding gcm_correct_def by blast
    then show ?thesis using that
      by (cases "aes_gcm_encrypt P ?k ?nonce (TextEncoder_encode msg)") simp_all
  qed
  obtain w g' where w: "rsa_oaep_encrypt P SHA_256 pk ?k ?g2 = (Some w, g')"
    and dw: "rsa_oaep_decrypt P SHA_256 sk w = Some ?k"
  proof -
    have "case fst (rsa_oaep_encrypt P SHA_256 pk ?k ?g2) of
            None \<Rightarrow> False
          | Some c \<Rightarrow> rsa_oaep_decrypt P SHA_256 sk c = Some ?k"
      using oaep lk unfolding oaep_inverts_def by blast
    then show ?thesis using that
      by (cases "rsa_oaep_encrypt P SHA_256 pk ?k ?g2";
          cases "fst (rsa_oaep_encrypt P SHA_256 pk ?k ?g2)") simp_all
  qed
  have enc: "encryptMessage P msg pub g =
      (Inr \<lparr>ciphertext = base64_encode ct, iv = base64_encode ?nonce,
            encryptedKey = base64_encode w\<rparr>, g')"
    by (simp add: encryptMessage_eq [OF pub] ct w Let_def)
  have "decryptMessage P (base64_encode ct) (base64_encode ?nonce) (base64_encode w) priv =
        Inr (TextDecoder_decode (TextEncoder_encode msg))"
    using lct by (simp add: decryptMessage_eq [OF priv] dw dct)
  then show ?thesis by (simp add: decrypt_encrypted_def enc decryptEnvelope_def)
qed

lemma generateRSAKeyPair_Inr:
  assumes "fst (generateRSAKeyPair P g) = Inr K"
  shows "\<exists>pk sk. fst (rsa_generate P 4096 [1, 0, 1] g) = Some (pk, sk) \<and>
           K = \<lparr>publicKey = \<lparr>extractable = True, algorithm = RSA_OAEP 4096 [1, 0, 1] SHA_256,
                               usages = [Encrypt], material = RsaPublic pk\<rparr>,
                 privateKey = \<lparr>extractable = True, algorithm = RSA_OAEP 4096 [1, 0, 1] SHA_256,
                                usages = [Decrypt], material = RsaPrivate sk\<rparr>\<rparr>"
  using assms
  by (auto simp: generateRSAKeyPair_def subtle_generateKey_RSA_OAEP_def usages_within_def
      usage_intersection_def split: prod.splits option.splits if_splits)

lemma generateRSAKeyPair_Some:
  assumes "fst (rsa_generate P 4096 [1, 0, 1] g) = Some (pk, sk)"
  shows "fst (generateRSAKeyPair P g) =
           Inr \<lparr>publicKey = \<lparr>extractable = True, algorithm = RSA_OAEP 4096 [1, 0, 1] SHA_256,
                               usages = [Encrypt], material = RsaPublic pk\<rparr>,
                 privateKey = \<lparr>extractable = True, algorithm = RSA_OAEP 4096 [1, 0, 1] SHA_256,
                                usages = [Decrypt], material = RsaPrivate sk\<rparr>\<rparr>"
  using assms
  by (auto simp: generateRSAKeyPair_def subtle_generateKey_RSA_OAEP_def usages_within_def
      usage_intersection_def split: prod.splits option.splits)

section \<open>The provider to compute with has the assumed properties\<close>

lemma toy_fields [simp]:
  "rsa_public_params toy_provider = (\<lambda>pk. (4096, [1, 0, 1]))"
  "rsa_private_params toy_provider = (\<lambda>sk. (4096, [1, 0, 1]))"
  "export_spki toy_provider = (\<lambda>pk. 0x30 # pk)"
  "import_spki toy_provider = toy_import 0x30"
  "export_pkcs8 toy_provider = (\<lambda>sk. 0x31 # sk)"
  "import_pkcs8 toy_provider = toy_import 0x31"
  "rsa_oaep_encrypt toy_provider = (\<lambda>h pk m g. (if length m \<le> 446 then Some (m @ pk @ m) else None, g))"
  "rsa_oaep_decrypt toy_provider = (\<lambda>h sk c. toy_rsa_decrypt sk c)"
  "aes_gcm_encrypt toy_provider = (\<lambda>k nonce m. Some (m @ k @ nonce @ m))"
  "aes_gcm_decrypt toy_provider = toy_gcm_decrypt"
  by (simp_all add: toy_provider_def)

lemma toy_generate:
  "fst (rsa_generate toy_provider ml pe g) = Some (pk, sk) \<longleftrightarrow> pk = [g 0, g 1] \<and> sk = pk"
  by (auto simp: toy_provider_def getRandomValues_def numeral_2_eq_2)

lemma toy_rsa_decrypt_iff: "toy_rsa_decrypt sk c = Some m \<longleftrightarrow> c = m @ sk @ m"
proof
  assume "toy_rsa_decrypt sk c = Some m"
  then show "c = m @ sk @ m"
    by (auto simp: toy_rsa_decrypt_def Let_def split: if_splits)
next
  assume "c = m @ sk @ m"
  then show "toy_rsa_decrypt sk c = Some m" by (simp add: toy_rsa_decrypt_def)
qed

lemma toy_gcm_decrypt_iff: "toy_gcm_decrypt k nonce c = Some m \<longleftrightarrow> c = m @ k @ nonce @ m"
proof
  assume "toy_gcm_decrypt k nonce c = Some m"
  then show "c = m @ k @ nonce @ m"
    by (auto simp: toy_gcm_decrypt_def Let_def split: if_splits)
next
  assume "c = m @ k @ nonce @ m"
  then show "toy_gcm_decrypt k nonce c = Some m" by (simp add: toy_gcm_decrypt_def)
qed

lemma toy_rsa_correct: "rsa_correct toy_provider"
  unfolding rsa_correct_def oaep_inverts_def
proof (intro allI impI)
  fix g pk sk and m :: "byte list" and r :: rng
  assume "fst (rsa_generate toy_provider 4096 [1, 0, 1] g) = Some (pk, sk)" and "length m = 32"
  then have "sk = pk" by (simp add: toy_generate)
  then show "case fst (rsa_oaep_encrypt toy_provider SHA_256 pk m r) of
               None \<Rightarrow> False
             | Some c \<Rightarrow> rsa_oaep_decrypt toy_provider SHA_256 sk c = Some m"
    using \<open>length m = 32\<close> by (simp add: toy_rsa_decrypt_iff)
qed

lemma toy_gcm_correct: "gcm_correct toy_provider"
  by (simp add: gcm_correct_def toy_gcm_decrypt_iff)

lemma toy_spki_roundtrip: "spki_roundtrip toy_provider"
  by (simp add: spki_roundtrip_def toy_import_def)

lemma toy_pkcs8_roundtrip: "pkcs8_roundtrip toy_provider"
  by (simp add: pkcs8_roundtrip_def toy_import_def)

lemma toy_pair_generated: "fst (generateRSAKeyPair toy_provider counting_rng) = Inr toy_pair"
  unfolding toy_pair_def
  by (rule generateRSAKeyPair_Some) (simp add: toy_generate counting_rng_def)


section \<open>Encryption, decryption and key generation\<close>

lemma generated_pair_roundtrip:
  assumes "rsa_correct P" "gcm_correct P" "fst (generateRSAKeyPair P g0) = Inr K"
  shows "decrypt_encrypted P msg (publicKey K) (privateKey K) g =
           Inr (TextDecoder_decode (TextEncoder_encode msg))"
proof -
  obtain pk sk where gen: "fst (rsa_generate P 4096 [1, 0, 1] g0) = Some (pk, sk)"
    and K: "K = \<lparr>publicKey = \<lparr>extractable = True, algorithm = RSA_OAEP 4096 [1, 0, 1] SHA_256,
                               usages = [Encrypt], material = RsaPublic pk\<rparr>,
                 privateKey = \<lparr>extractable = True, algorithm = RSA_OAEP 4096 [1, 0, 1] SHA_256,
                                usages = [Decrypt], material = RsaPrivate sk\<rparr>\<rparr>"
    using generateRSAKeyPair_Inr [OF assms(3)] by blast
  have inv: "oaep_inverts P pk sk" using assms(1) gen unfolding rsa_correct_def by blast
  show ?thesis
    by (rule decrypt_encrypted_eq [OF assms(2) inv]) (simp_all add: K)
qed

text \<open>
  Claim C1, amended. On a provider whose RSA-OAEP, under the key pairs generated with a
  modulus of 4096 bits and the exponent 65537, and whose AES-GCM, under a 32-byte key
  and a 12-byte nonce, decrypt what they encrypt:
  for every key pair \<open>K\<close> produced by \<^verbatim>\<open>generateRSAKeyPair\<close> and every plaintext
  that is well formed (no surrogate outside a pair) and does not begin with the byte
  order mark \<^verbatim>\<open>U+FEFF\<close> (the empty string included), \<^verbatim>\<open>decryptMessage\<close> applied to the three
  fields of \<^verbatim>\<open>encryptMessage(P, K.publicKey)\<close> and \<^verbatim>\<open>K.privateKey\<close> returns exactly \<open>P\<close>.
\<close>

theorem hybrid_roundtrip:
  assumes "rsa_correct P" "gcm_correct P" "fst (generateRSAKeyPair P g0) = Inr K"
    and "isWellFormed msg" "msg = [] \<or> hd msg \<noteq> 0xFEFF"
  shows "decrypt_encrypted P msg (publicKey K) (privateKey K) g = Inr msg"
  using generated_pair_roundtrip [OF assms(1,2,3)] text_roundtrip [OF assms(4,5)] by simp

lemma js_hello_bob:
  "js ''hello bob'' = [0x68, 0x65, 0x6C, 0x6C, 0x6F, 0x20, 0x62, 0x6F, 0x62]"
  by (simp add: js_def)

lemma wf_hello_bob: "isWellFormed (js ''hello bob'')"
  by (simp add: js_hello_bob is_high_surrogate_def is_low_surrogate_def)

theorem hybrid_roundtrip_witness:
  "rsa_correct toy_provider \<and> gcm_correct toy_provider \<and>
   fst (generateRSAKeyPair toy_provider counting_rng) = Inr toy_pair \<and>
   isWellFormed (js ''hello bob'') \<and>
   decrypt_encrypted toy_provider (js ''hello bob'') (publicKey toy_pair) (privateKey toy_pair)
     zero_rng = Inr (js ''hello bob'') \<and>
   decrypt_encrypted toy_provider [] (publicKey toy_pair) (privateKey toy_pair) zero_rng = Inr []"
proof -
  have 1: "js ''hello bob'' = [] \<or> hd (js ''hello bob'') \<noteq> 0xFEFF"
    by (simp add: js_hello_bob)
  show ?thesis
    using hybrid_roundtrip [OF toy_rsa_correct toy_gcm_correct toy_pair_generated wf_hello_bob 1,
            of zero_rng]
      hybrid_roundtrip [OF toy_rsa_correct toy_gcm_correct toy_pair_generated,
            of "[]" zero_rng]
    by (simp add: toy_rsa_correct toy_gcm_correct toy_pair_generated wf_hello_bob)
qed

lemma text_bom: "TextDecoder_decode (TextEncoder_encode [0xFEFF, 0x68, 0x69]) = [0x68, 0x69]"
  by (simp add: TextDecoder_decode_def TextEncoder_encode_def utf8_bytes_def
      is_high_surrogate_def is_low_surrogate_def)

lemma text_lone_surrogate: "TextDecoder_decode (TextEncoder_encode [0xD800]) = [0xFFFD]"
  by (simp add: TextDecoder_decode_def TextEncoder_encode_def utf8_bytes_def
      is_high_surrogate_def)

text \<open>
  The claim as stated fails for a plaintext that begins with \<^verbatim>\<open>U+FEFF\<close>: the decoder drops
  it, so the three code units \<^verbatim>\<open>FEFF 0068 0069\<close> come back as \<^verbatim>\<open>0068 0069\<close>. It also fails
  for a surrogate outside a pair, which the encoder replaces: \<^verbatim>\<open>D800\<close> comes back as
  \<^verbatim>\<open>FFFD\<close>.
\<close>

theorem hybrid_roundtrip_counterexample:
  "fst (generateRSAKeyPair toy_provider counting_rng) = Inr toy_pair \<and>
   decrypt_encrypted toy_provider [0xFEFF, 0x68, 0x69] (publicKey toy_pair) (privateKey toy_pair)
     zero_rng = Inr [0x68, 0x69] \<and>
   decrypt_encrypted toy_provider [0xFEFF, 0x68, 0x69] (publicKey toy_pair) (privateKey toy_pair)
     zero_rng \<noteq> Inr [0xFEFF, 0x68, 0x69] \<and>
   decrypt_encrypted toy_provider [0xD800] (publicKey toy_pair) (privateKey toy_pair)
     zero_rng = Inr [0xFFFD]"
  using generated_pair_roundtrip [OF toy_rsa_correct toy_gcm_correct toy_pair_generated,
          of "[0xFEFF, 0x68, 0x69]" zero_rng]
    generated_pair_roundtrip [OF toy_rsa_correct toy_gcm_correct toy_pair_generated,
          of "[0xD800]" zero_rng]
  by (simp add: toy_pair_generated text_bom text_lone_surrogate)

text \<open>
  Claim C9. When the provider generates the RSA key, \<^verbatim>\<open>generateRSAKeyPair\<close> returns a key
  pair for \<^verbatim>\<open>RSA-OAEP\<close> with a modulus length of 4096 and the hash \<^verbatim>\<open>SHA-256\<close>; both
  handles are extractable, and \<^verbatim>\<open>exportPublicKey\<close> and \<^verbatim>\<open>exportPrivateKey\<close> serialise
  them without an error.
\<close>

theorem generateRSAKeyPair_profile:
  assumes "fst (rsa_generate P 4096 [1, 0, 1] g) = Some (pk, sk)"
  shows "\<exists>K. fst (generateRSAKeyPair P g) = Inr K \<and>
           algorithm (publicKey K) = RSA_OAEP 4096 [1, 0, 1] SHA_256 \<and>
           algorithm (privateKey K) = RSA_OAEP 4096 [1, 0, 1] SHA_256 \<and>
           key_type (publicKey K) = PublicKey \<and> key_type (privateKey K) = PrivateKey \<and>
           extractable (publicKey K) \<and> extractable (privateKey K) \<and>
           exportPublicKey P (publicKey K) =
             Inr (PEM_HEADER @ [0x0A] @ base64_encode (export_spki P pk) @ [0x0A] @ PEM_FOOTER) \<and>
           exportPrivateKey P (privateKey K) = Inr (base64_encode (export_pkcs8 P sk))"
  by (simp add: generateRSAKeyPair_Some [OF assms] key_type_def exportPublicKey_def
      exportPrivateKey_def subtle_exportKey_def)

theorem generateRSAKeyPair_profile_witness:
  "fst (rsa_generate toy_provider 4096 [1, 0, 1] counting_rng) = Some ([0, 1], [0, 1]) \<and>
   (\<exists>K. fst (generateRSAKeyPair toy_provider counting_rng) = Inr K \<and>
           algorithm (publicKey K) = RSA_OAEP 4096 [1, 0, 1] SHA_256 \<and>
           algorithm (privateKey K) = RSA_OAEP 4096 [1, 0, 1] SHA_256 \<and>
           key_type (publicKey K) = PublicKey \<and> key_type (privateKey K) = PrivateKey \<and>
           extractable (publicKey K) \<and> extractable (privateKey K) \<and>
           exportPublicKey toy_provider (publicKey K) =
             Inr (PEM_HEADER @ [0x0A] @ base64_encode [0x30, 0, 1] @ [0x0A] @ PEM_FOOTER) \<and>
           exportPrivateKey toy_provider (privateKey K) = Inr (base64_encode [0x31, 0, 1]))"
proof -
  have g: "fst (rsa_generate toy_provider 4096 [1, 0, 1] counting_rng) = Some ([0, 1], [0, 1])"
    by (simp add: toy_generate counting_rng_def)
  show ?thesis using generateRSAKeyPair_profile [OF g] g by simp
qed

section \<open>The key codec\<close>

lemma replace_first_prefix: "replace_first pat (pat @ s) = s"
  by (cases "pat @ s") (simp_all, metis append_eq_conv_conj length_Cons list.sel(3) drop_Suc_Cons take_Suc_Cons)

lemma replace_first_absent: "p \<notin> set s \<Longrightarrow> replace_first (p # ps) s = s"
  by (induction s) auto

lemma replace_first_suffix: "p \<notin> set s \<Longrightarrow> replace_first (p # ps) (s @ p # ps) = s"
  by (induction s) auto

lemma PEM_HEADER_Cons: "\<exists>ps. PEM_HEADER = 0x2D # ps"
  by (simp add: PEM_HEADER_def js_def)

lemma PEM_FOOTER_Cons: "\<exists>ps. PEM_FOOTER = 0x2D # ps"
  by (simp add: PEM_FOOTER_def js_def)

lemma replace_newlines_absent: "0x0A \<notin> set s \<Longrightarrow> replace_newlines s = s"
  by (auto simp: replace_newlines_def filter_id_conv)

lemma pem_contents_framed:
  assumes "0x2D \<notin> set body" "0x0A \<notin> set body"
  shows "pem_contents (PEM_HEADER @ [0x0A] @ body @ [0x0A] @ PEM_FOOTER) = body"
proof -
  obtain ps where f: "PEM_FOOTER = 0x2D # ps" using PEM_FOOTER_Cons by blast
  have 1: "replace_first PEM_HEADER (PEM_HEADER @ [0x0A] @ body @ [0x0A] @ PEM_FOOTER) =
        [0x0A] @ body @ [0x0A] @ PEM_FOOTER"
    by (rule replace_first_prefix)
  have "0x2D \<notin> set ([0x0A] @ body @ [0x0A :: code_unit])" using assms(1) by simp
  then have "replace_first (0x2D # ps) (([0x0A] @ body @ [0x0A]) @ 0x2D # ps) =
             [0x0A] @ body @ [0x0A]"
    by (rule replace_first_suffix)
  then have 2: "replace_first PEM_FOOTER ([0x0A] @ body @ [0x0A] @ PEM_FOOTER) =
                [0x0A] @ body @ [0x0A]"
    unfolding f by (simp only: append_assoc)
  have 3: "replace_newlines ([0x0A] @ body @ [0x0A]) = body"
    using assms(2) by (auto simp: replace_newlines_def filter_id_conv)
  show ?thesis unfolding pem_contents_def 1 2 3 ..
qed

lemma pem_contents_bare:
  assumes "0x2D \<notin> set body" "0x0A \<notin> set body"
  shows "pem_contents body = body"
proof -
  obtain ps where h: "PEM_HEADER = 0x2D # ps" using PEM_HEADER_Cons by blast
  obtain qs where f: "PEM_FOOTER = 0x2D # qs" using PEM_FOOTER_Cons by blast
  have 1: "replace_first PEM_HEADER body = body"
    unfolding h by (rule replace_first_absent [OF assms(1)])
  have 2: "replace_first PEM_FOOTER body = body"
    unfolding f by (rule replace_first_absent [OF assms(1)])
  show ?thesis unfolding pem_contents_def 1 2 by (rule replace_newlines_absent [OF assms(2)])
qed

lemma b64_char_plain: "n < 64 \<Longrightarrow> b64_char n \<noteq> 0x2D \<and> b64_char n \<noteq> 0x0A"
  by (auto simp: b64_char_def word_eq_iff_unsigned [where ?'a = nat] unat_of_nat)

lemma base64_encode_plain: "0x2D \<notin> set (base64_encode bs) \<and> 0x0A \<notin> set (base64_encode bs)"
  using encode_sextets_lt [of bs]
  by (auto simp: base64_encode_def base64_padding_def b64_char_plain)

lemma importPublicKey_contents:
  "importPublicKey P pem =
     await_then (base64ToArrayBuffer (pem_contents pem)) (\<lambda>binaryKey.
       subtle_importKey P Spki binaryKey (RsaHashedImportParams SHA_256) True [Encrypt])"
  by (simp add: importPublicKey_def pem_contents_def)

lemma subtle_importKey_spki:
  "subtle_importKey P Spki bytes (RsaHashedImportParams SHA_256) True [Encrypt] =
     (case import_spki P bytes of
        None \<Rightarrow> Inl DataError
      | Some pk \<Rightarrow> Inr \<lparr>extractable = True,
                        algorithm = RSA_OAEP (fst (rsa_public_params P pk))
                                      (snd (rsa_public_params P pk)) SHA_256,
                        usages = [Encrypt], material = RsaPublic pk\<rparr>)"
  by (simp add: subtle_importKey_def usages_within_def)

lemma subtle_importKey_pkcs8:
  "subtle_importKey P Pkcs8 bytes (RsaHashedImportParams SHA_256) True [Decrypt] =
     (case import_pkcs8 P bytes of
        None \<Rightarrow> Inl DataError
      | Some sk \<Rightarrow> Inr \<lparr>extractable = True,
                        algorithm = RSA_OAEP (fst (rsa_private_params P sk))
                                      (snd (rsa_private_params P sk)) SHA_256,
                        usages = [Decrypt], material = RsaPrivate sk\<rparr>)"
  by (simp add: subtle_importKey_def usages_within_def split: option.splits)

lemma importPublicKey_framed:
  "importPublicKey P (PEM_HEADER @ [0x0A] @ base64_encode bytes @ [0x0A] @ PEM_FOOTER) =
     subtle_importKey P Spki bytes (RsaHashedImportParams SHA_256) True [Encrypt]"
  unfolding importPublicKey_contents
    pem_contents_framed [OF base64_encode_plain [THEN conjunct1] base64_encode_plain [THEN conjunct2]]
  by simp

lemma importPublicKey_bare:
  "importPublicKey P (base64_encode bytes) =
     subtle_importKey P Spki bytes (RsaHashedImportParams SHA_256) True [Encrypt]"
  unfolding importPublicKey_contents
    pem_contents_bare [OF base64_encode_plain [THEN conjunct1] base64_encode_plain [THEN conjunct2]]
  by simp

section \<open>Exported and imported keys\<close>

lemma exportPublicKey_eq:
  assumes "material key = RsaPublic pk" "algorithm key = RSA_OAEP ml pe h" "extractable key"
  shows "exportPublicKey P key =
           Inr (PEM_HEADER @ [0x0A] @ base64_encode (export_spki P pk) @ [0x0A] @ PEM_FOOTER)"
  using assms by (simp add: exportPublicKey_def subtle_exportKey_def)

lemma exportPrivateKey_eq:
  assumes "material key = RsaPrivate sk" "algorithm key = RSA_OAEP ml pe h" "extractable key"
  shows "exportPrivateKey P key = Inr (base64_encode (export_pkcs8 P sk))"
  using assms by (simp add: exportPrivateKey_def subtle_exportKey_def)

lemma importPrivateKey_encode:
  "importPrivateKey P (base64_encode bytes) =
     subtle_importKey P Pkcs8 bytes (RsaHashedImportParams SHA_256) True [Decrypt]"
  by (simp add: importPrivateKey_def)

lemma encryptMessage_cong:
  assumes "material pub' = material pub" "material pub = RsaPublic pk"
    "algorithm pub = RSA_OAEP ml pe h" "algorithm pub' = RSA_OAEP ml' pe' h"
    "Encrypt \<in> set (usages pub)" "Encrypt \<in> set (usages pub')"
  shows "encryptMessage P msg pub' g = encryptMessage P msg pub g"
proof -
  have m: "material pub' = RsaPublic pk" using assms(1,2) by simp
  show ?thesis
    unfolding encryptMessage_eq [OF assms(2,3,5)] encryptMessage_eq [OF m assms(4,6)] ..
qed

lemma decryptMessage_cong:
  assumes "material priv' = material priv" "material priv = RsaPrivate sk"
    "algorithm priv = RSA_OAEP ml pe h" "algorithm priv' = RSA_OAEP ml' pe' h"
    "Decrypt \<in> set (usages priv)" "Decrypt \<in> set (usages priv')"
  shows "decryptMessage P c i k priv' = decryptMessage P c i k priv"
proof -
  have m: "material priv' = RsaPrivate sk" using assms(1,2) by simp
  have "subtle_decrypt P RsaOaepParams priv' w = subtle_decrypt P RsaOaepParams priv w" for w
    unfolding subtle_decrypt_rsa [OF assms(2,3,5)] subtle_decrypt_rsa [OF m assms(4,6)] ..
  then show ?thesis by (simp add: decryptMessage_def)
qed

text \<open>
  Claim C3. On a provider whose SPKI and PKCS8 parsers invert its serialisers and whose
  ciphers decrypt what they encrypt (RSA-OAEP under the key pairs generated with a
  modulus of 4096 bits and the exponent 65537, AES-GCM under a 32-byte key and a 12-byte
  nonce), for every key pair \<open>K\<close> produced by \<^verbatim>\<open>generateRSAKeyPair\<close>: \<^verbatim>\<open>importPublicKey(exportPublicKey(K.publicKey))\<close> returns a key
  under which \<^verbatim>\<open>encryptMessage\<close> does what it does under \<^verbatim>\<open>K.publicKey\<close>, and its
  envelopes are decrypted with \<^verbatim>\<open>K.privateKey\<close>;
  \<^verbatim>\<open>importPrivateKey(exportPrivateKey(K.privateKey))\<close> returns a key under which
  \<^verbatim>\<open>decryptMessage\<close> does what it does under \<^verbatim>\<open>K.privateKey\<close>, and it decrypts the
  envelopes encrypted under \<^verbatim>\<open>K.publicKey\<close>.
\<close>

theorem key_export_import_roundtrip:
  assumes "spki_roundtrip P" "pkcs8_roundtrip P" "rsa_correct P" "gcm_correct P"
    and "fst (generateRSAKeyPair P g0) = Inr K"
  shows "\<exists>pub' priv'.
           await_then (exportPublicKey P (publicKey K)) (importPublicKey P) = Inr pub' \<and>
           await_then (exportPrivateKey P (privateKey K)) (importPrivateKey P) = Inr priv' \<and>
           (\<forall>msg g. encryptMessage P msg pub' g = encryptMessage P msg (publicKey K) g \<and>
                    decrypt_encrypted P msg pub' (privateKey K) g =
                      Inr (TextDecoder_decode (TextEncoder_encode msg)) \<and>
                    decrypt_encrypted P msg (publicKey K) priv' g =
                      Inr (TextDecoder_decode (TextEncoder_encode msg))) \<and>
           (\<forall>c i k. decryptMessage P c i k priv' = decryptMessage P c i k (privateKey K))"
proof -
  obtain pk sk where gen: "fst (rsa_generate P 4096 [1, 0, 1] g0) = Some (pk, sk)"
    and K: "K = \<lparr>publicKey = \<lparr>extractable = True, algorithm = RSA_OAEP 4096 [1, 0, 1] SHA_256,
                               usages = [Encrypt], material = RsaPublic pk\<rparr>,
                 privateKey = \<lparr>extractable = True, algorithm = RSA_OAEP 4096 [1, 0, 1] SHA_256,
                                usages = [Decrypt], material = RsaPrivate sk\<rparr>\<rparr>"
    using generateRSAKeyPair_Inr [OF assms(5)] by blast
  let ?pub = "\<lparr>extractable = True,
               algorithm = RSA_OAEP (fst (rsa_public_params P pk)) (snd (rsa_public_params P pk))
                             SHA_256,
               usages = [Encrypt], material = RsaPublic pk\<rparr> :: ('a, 'b) CryptoKey"
  let ?priv = "\<lparr>extractable = True,
                algorithm = RSA_OAEP (fst (rsa_private_params P sk)) (snd (rsa_private_params P sk))
                              SHA_256,
                usages = [Decrypt], material = RsaPrivate sk\<rparr> :: ('a, 'b) CryptoKey"
  have inv: "oaep_inverts P pk sk" using assms(3) gen unfolding rsa_correct_def by blast
  have spki: "import_spki P (export_spki P pk) = Some pk"
    using assms(1) unfolding spki_roundtrip_def by blast
  have pkcs8: "import_pkcs8 P (export_pkcs8 P sk) = Some sk"
    using assms(2) unfolding pkcs8_roundtrip_def by blast
  have ex: "exportPublicKey P (publicKey K) =
              Inr (PEM_HEADER @ [0x0A] @ base64_encode (export_spki P pk) @ [0x0A] @ PEM_FOOTER)"
    by (rule exportPublicKey_eq) (simp_all add: K)
  have 1: "await_then (exportPublicKey P (publicKey K)) (importPublicKey P) = Inr ?pub"
    unfolding ex await_then_simps importPublicKey_framed subtle_importKey_spki spki by simp
  have ex': "exportPrivateKey P (privateKey K) = Inr (base64_encode (export_pkcs8 P sk))"
    by (rule exportPrivateKey_eq) (simp_all add: K)
  have 2: "await_then (exportPrivateKey P (privateKey K)) (importPrivateKey P) = Inr ?priv"
    unfolding ex' await_then_simps importPrivateKey_encode subtle_importKey_pkcs8 pkcs8 by simp
  have 3: "encryptMessage P msg ?pub g = encryptMessage P msg (publicKey K) g" for msg g
    by (rule encryptMessage_cong) (simp_all add: K)
  have 4: "decrypt_encrypted P msg ?pub (privateKey K) g =
             Inr (TextDecoder_decode (TextEncoder_encode msg))" for msg g
    by (rule decrypt_encrypted_eq [OF assms(4) inv]) (simp_all add: K)
  have 5: "decrypt_encrypted P msg (publicKey K) ?priv g =
             Inr (TextDecoder_decode (TextEncoder_encode msg))" for msg g
    by (rule decrypt_encrypted_eq [OF assms(4) inv]) (simp_all add: K)
  have 6: "decryptMessage P c i k ?priv = decryptMessage P c i k (privateKey K)" for c i k
    by (rule decryptMessage_cong) (simp_all add: K)
  show ?thesis using 1 2 3 4 5 6 by blast
qed

lemma js_MAAB: "base64_encode [0x30, 0, 1] = js ''MAAB''"
  by (simp add: base64_encode_def base64_padding_def b64_char_def js_def)

lemma js_MQAB: "base64_encode [0x31, 0, 1] = js ''MQAB''"
  by (simp add: base64_encode_def base64_padding_def b64_char_def js_def)

lemma toy_import_public: "importPublicKey toy_provider (js ''MAAB'') = Inr (publicKey toy_pair)"
  unfolding js_MAAB [symmetric] importPublicKey_bare subtle_importKey_spki
  by (simp add: toy_import_def toy_pair_def)

lemma toy_import_private: "importPrivateKey toy_provider (js ''MQAB'') = Inr (privateKey toy_pair)"
  unfolding js_MQAB [symmetric] importPrivateKey_encode subtle_importKey_pkcs8
  by (simp add: toy_import_def toy_pair_def)

theorem key_export_import_roundtrip_witness:
  "spki_roundtrip toy_provider \<and> pkcs8_roundtrip toy_provider \<and> rsa_correct toy_provider \<and>
   gcm_correct toy_provider \<and> fst (generateRSAKeyPair toy_provider counting_rng) = Inr toy_pair \<and>
   (\<exists>pub' priv'.
      await_then (exportPublicKey toy_provider (publicKey toy_pair)) (importPublicKey toy_provider)
        = Inr pub' \<and>
      await_then (exportPrivateKey toy_provider (privateKey toy_pair)) (importPrivateKey toy_provider)
        = Inr priv' \<and>
      (\<forall>msg g. encryptMessage toy_provider msg pub' g =
                 encryptMessage toy_provider msg (publicKey toy_pair) g \<and>
               decrypt_encrypted toy_provider msg pub' (privateKey toy_pair) g =
                 Inr (TextDecoder_decode (TextEncoder_encode msg)) \<and>
               decrypt_encrypted toy_provider msg (publicKey toy_pair) priv' g =
                 Inr (TextDecoder_decode (TextEncoder_encode msg))) \<and>
      (\<forall>c i k. decryptMessage toy_provider c i k priv' =
                 decryptMessage toy_provider c i k (privateKey toy_pair)))"
  using key_export_import_roundtrip [OF toy_spki_roundtrip toy_pkcs8_roundtrip toy_rsa_correct
          toy_gcm_correct toy_pair_generated]
        toy_spki_roundtrip toy_pkcs8_roundtrip toy_rsa_correct toy_gcm_correct toy_pair_generated
  by blast

theorem imported_keys_single_use_witness:
  "importPublicKey toy_provider (js ''MAAB'') = Inr (publicKey toy_pair) \<and>
   usages (publicKey toy_pair) = [Encrypt] \<and>
   isl (decryptMessage toy_provider (js ''AAAA'') (js ''AAAA'') (js ''AAAA'') (publicKey toy_pair)) \<and>
   importPrivateKey toy_provider (js ''MQAB'') = Inr (privateKey toy_pair) \<and>
   usages (privateKey toy_pair) = [Decrypt] \<and>
   isl (fst (encryptMessage toy_provider (js ''hello bob'') (privateKey toy_pair) zero_rng))"
  using imported_keys_single_use [of toy_provider "js ''MAAB''" "publicKey toy_pair"
          "js ''MQAB''" "privateKey toy_pair"]
        toy_import_public toy_import_private
  by blast

section \<open>What \<open>importPublicKey\<close> rejects\<close>

lemma b64_values_None: "c \<in> set s \<Longrightarrow> b64_value c = None \<Longrightarrow> b64_values s = None"
  by (induction s) (auto split: option.splits)

lemma in_butlast: "x \<in> set s \<Longrightarrow> x \<noteq> last s \<Longrightarrow> x \<in> set (butlast s)"
  by (induction s) (auto split: if_splits)

lemma dash_survives_padding:
  assumes "0x2D \<in> set s"
  shows "0x2D \<in> set (strip_padding s)"
proof (cases "length s mod 4 = 0 \<and> s \<noteq> [] \<and> last s = 0x3D")
  case False
  then show ?thesis using assms by (auto simp: strip_padding_def)
next
  case True
  then have "0x2D \<noteq> last s" by simp
  with assms have 1: "0x2D \<in> set (butlast s)" by (rule in_butlast)
  show ?thesis
  proof (cases "butlast s \<noteq> [] \<and> last (butlast s) = 0x3D")
    case False
    then show ?thesis using True 1 by (auto simp: strip_padding_def)
  next
    case b: True
    then have "0x2D \<noteq> last (butlast s)" by simp
    with 1 have "0x2D \<in> set (butlast (butlast s))" by (rule in_butlast)
    then show ?thesis using True b by (simp add: strip_padding_def)
  qed
qed

lemma atob_dash:
  assumes "0x2D \<in> set s"
  shows "atob s = Inl InvalidCharacterError"
proof -
  let ?d = "strip_padding (filter (\<lambda>c. \<not> is_ascii_whitespace c) s)"
  have "0x2D \<in> set (filter (\<lambda>c. \<not> is_ascii_whitespace c) s)"
    using assms by (simp add: is_ascii_whitespace_def)
  then have "0x2D \<in> set ?d" by (rule dash_survives_padding)
  moreover have "b64_value 0x2D = None" by (simp add: b64_value_def)
  ultimately have "b64_values ?d = None" by (rule b64_values_None)
  then show ?thesis by (simp add: atob_def Let_def)
qed

lemma atob_error: "atob s = Inl e \<Longrightarrow> e = InvalidCharacterError"
  by (auto simp: atob_def Let_def split: if_splits option.splits)

lemma base64ToArrayBuffer_error:
  "base64ToArrayBuffer s = Inl e \<Longrightarrow> e = InvalidCharacterError"
  by (auto simp: base64ToArrayBuffer_def dest: atob_error split: sum.splits)

text \<open>
  Claim C6, amended. \<^verbatim>\<open>importPublicKey\<close> fails with \<^verbatim>\<open>InvalidCharacterError\<close> when the
  record, without its first header, its first footer and its line feeds, is not valid
  base64, as when a wrong header or footer leaves a \<^verbatim>\<open>-\<close> in it, and with \<^verbatim>\<open>DataError\<close>
  when the decoded bytes are not a valid SPKI structure. It does not ask for the header
  or the footer: the bare base64 body of a record is imported as the framed record is.
\<close>

theorem importPublicKey_rejects:
  "(0x2D \<in> set (pem_contents pem) \<longrightarrow> importPublicKey P pem = Inl InvalidCharacterError) \<and>
   (base64ToArrayBuffer (pem_contents pem) = Inl e \<longrightarrow>
      e = InvalidCharacterError \<and> importPublicKey P pem = Inl InvalidCharacterError) \<and>
   (base64ToArrayBuffer (pem_contents pem) = Inr bytes \<and> import_spki P bytes = None \<longrightarrow>
      importPublicKey P pem = Inl DataError) \<and>
   importPublicKey P (base64_encode body) =
     importPublicKey P (PEM_HEADER @ [0x0A] @ base64_encode body @ [0x0A] @ PEM_FOOTER)"
proof (intro conjI impI)
  assume "0x2D \<in> set (pem_contents pem)"
  then show "importPublicKey P pem = Inl InvalidCharacterError"
    by (simp add: importPublicKey_contents base64ToArrayBuffer_def atob_dash)
next
  assume a: "base64ToArrayBuffer (pem_contents pem) = Inl e"
  then show e: "e = InvalidCharacterError" by (rule base64ToArrayBuffer_error)
  show "importPublicKey P pem = Inl InvalidCharacterError"
    using a e by (simp add: importPublicKey_contents)
next
  assume "base64ToArrayBuffer (pem_contents pem) = Inr bytes \<and> import_spki P bytes = None"
  then show "importPublicKey P pem = Inl DataError"
    by (simp add: importPublicKey_contents subtle_importKey_spki)
next
  show "importPublicKey P (base64_encode body) =
     importPublicKey P (PEM_HEADER @ [0x0A] @ base64_encode body @ [0x0A] @ PEM_FOOTER)"
    by (simp only: importPublicKey_bare importPublicKey_framed)
qed

lemma wrong_header_contents:
  "pem_contents (js ''--BEGIN--'' @ [0x0A] @ js ''MAAB'') = js ''--BEGIN--MAAB''"
  by (simp add: pem_contents_def PEM_HEADER_def PEM_FOOTER_def replace_newlines_def js_def)

lemma short_b64_contents: "pem_contents (js ''M'') = js ''M''"
  by (simp add: pem_contents_def PEM_HEADER_def PEM_FOOTER_def replace_newlines_def js_def)

lemma short_b64_fails: "base64ToArrayBuffer (js ''M'') = Inl InvalidCharacterError"
  by (simp add: base64ToArrayBuffer_def atob_def strip_padding_def is_ascii_whitespace_def js_def)

theorem importPublicKey_rejects_witness:
  "0x2D \<in> set (pem_contents (js ''--BEGIN--'' @ [0x0A] @ js ''MAAB'')) \<and>
   importPublicKey toy_provider (js ''--BEGIN--'' @ [0x0A] @ js ''MAAB'') =
     Inl InvalidCharacterError \<and>
   base64ToArrayBuffer (pem_contents (js ''M'')) = Inl InvalidCharacterError \<and>
   importPublicKey toy_provider (js ''M'') = Inl InvalidCharacterError \<and>
   base64ToArrayBuffer (pem_contents (js ''AAA'')) = Inr [0, 0] \<and>
   import_spki toy_provider [0, 0] = None \<and>
   importPublicKey toy_provider (js ''AAA'') = Inl DataError"
proof -
  have 1: "0x2D \<in> set (pem_contents (js ''--BEGIN--'' @ [0x0A] @ js ''MAAB''))"
    unfolding wrong_header_contents by (simp add: js_def)
  have 2: "base64ToArrayBuffer (pem_contents (js ''M'')) = Inl InvalidCharacterError"
    by (simp add: short_b64_contents short_b64_fails)
  have c: "pem_contents (js ''AAA'') = js ''AAA''"
    by (simp add: pem_contents_def PEM_HEADER_def PEM_FOOTER_def replace_newlines_def js_def)
  have 3: "base64ToArrayBuffer (pem_contents (js ''AAA'')) = Inr [0, 0]"
    unfolding c
    by (simp add: base64ToArrayBuffer_def atob_def strip_padding_def is_ascii_whitespace_def
        b64_value_def js_def)
  have 4: "import_spki toy_provider [0, 0] = None" by (simp add: toy_import_def)
  show ?thesis
    using importPublicKey_rejects [of "js ''--BEGIN--'' @ [0x0A] @ js ''MAAB''" toy_provider]
      importPublicKey_rejects [of "js ''M''" toy_provider InvalidCharacterError]
      importPublicKey_rejects [of "js ''AAA''" toy_provider _ "[0, 0]"]
      1 2 3 4
    by simp
qed

text \<open>
  The claim as stated fails for a record without header and footer: the bare body
  \<^verbatim>\<open>MAAB\<close> of the record that \<open>exportPublicKey\<close> writes for a key is imported as that key.
\<close>

theorem importPublicKey_rejects_counterexample:
  "exportPublicKey toy_provider (publicKey toy_pair) =
     Inr (PEM_HEADER @ [0x0A] @ js ''MAAB'' @ [0x0A] @ PEM_FOOTER) \<and>
   importPublicKey toy_provider (js ''MAAB'') = Inr (publicKey toy_pair)"
proof -
  have "exportPublicKey toy_provider (publicKey toy_pair) =
          Inr (PEM_HEADER @ [0x0A] @ base64_encode (export_spki toy_provider [0, 1]) @ [0x0A]
               @ PEM_FOOTER)"
    by (rule exportPublicKey_eq) (simp_all add: toy_pair_def)
  then show ?thesis using toy_import_public by (simp add: js_MAAB)
qed

section \<open>The key and the nonce of a message\<close>

lemma encryptMessage_wrap:
  "encryptMessage P msg pub g =
    (case aes_gcm_encrypt P (drawn_key g) (drawn_nonce g) (TextEncoder_encode msg) of
       None \<Rightarrow> (Inl OperationError, snd (getRandomValues 12 (snd (getRandomValues 32 g))))
     | Some ct \<Rightarrow>
         (case subtle_encrypt P RsaOaepParams pub (drawn_key g)
                 (snd (getRandomValues 12 (snd (getRandomValues 32 g)))) of
            (Inl e, g') \<Rightarrow> (Inl e, g')
          | (Inr w, g') \<Rightarrow>
              (Inr \<lparr>ciphertext = base64_encode ct, iv = base64_encode (drawn_nonce g),
                    encryptedKey = base64_encode w\<rparr>, g')))"
  by (simp add: encryptMessage_def generateKey_AES Let_def subtle_encrypt_def [of P "AesGcmParams _"]
      subtle_exportKey_def drawn_key_def drawn_nonce_def await_rng_def
      split: prod.splits option.splits sum.splits)

lemma encryptMessage_iv:
  assumes "fst (encryptMessage P msg pub g) = Inr E"
  shows "iv E = base64_encode (drawn_nonce g)"
  using assms unfolding encryptMessage_wrap
  by (auto split: option.splits prod.splits sum.splits)

lemma drawn_key_eq: "drawn_key g = map g [0..<32]"
  by (simp add: drawn_key_def getRandomValues_def del: upt_rec_numeral)

lemma drawn_nonce_eq: "drawn_nonce g = map g [32..<44]"
proof -
  have "map g [32..<32 + 12] = map (\<lambda>i. g (32 + i)) [0..<12]"
    by (simp only: map_add_upt [symmetric] map_map comp_def add.commute)
  then show ?thesis
    by (simp add: drawn_nonce_def getRandomValues_def del: upt_rec_numeral)
qed

lemma base64_encode_inj: "base64_encode a = base64_encode b \<longleftrightarrow> a = b"
proof
  assume "base64_encode a = base64_encode b"
  then have "base64ToArrayBuffer (base64_encode a) = base64ToArrayBuffer (base64_encode b)"
    by simp
  then show "a = b" by simp
qed simp

lemma toy_key_zero: "drawn_key zero_rng = replicate 32 0"
  by (simp add: drawn_key_eq zero_rng_def map_replicate_const del: upt_rec_numeral)

lemma toy_nonce_zero: "drawn_nonce zero_rng = replicate 12 0"
  by (simp add: drawn_nonce_eq zero_rng_def map_replicate_const del: upt_rec_numeral)

lemma toy_rest_zero: "snd (getRandomValues 12 (snd (getRandomValues 32 zero_rng))) = zero_rng"
  by (simp add: getRandomValues_def zero_rng_def)

lemma replicate_12: "replicate 12 x = [x, x, x, x, x, x, x, x, x, x, x, x]"
  by (simp add: eval_nat_numeral)

lemma replicate_32:
  "replicate 32 x = [x, x, x, x, x, x, x, x, x, x, x, x, x, x, x, x,
                     x, x, x, x, x, x, x, x, x, x, x, x, x, x, x, x]"
  by (simp add: eval_nat_numeral)

lemma toy_iv_field: "base64_encode (replicate 12 0) = js ''AAAAAAAAAAAAAAAA''"
  by (simp add: replicate_12 base64_encode_def base64_padding_def b64_char_def js_def)

lemma toy_ciphertext_field:
  "base64_encode ([0x41] @ replicate 32 0 @ replicate 12 0 @ [0x41]) =
     js ''QQAAAAAAAAAAAAAAAAAAAAAAAAAAAAAAAAAAAAAAAAAAAAAAAAAAAAAAAAAAQQ==''"
  by (simp add: replicate_12 replicate_32 base64_encode_def base64_padding_def replicate_2
      b64_char_def js_def)

lemma toy_key_field:
  "base64_encode (replicate 32 0 @ [0, 1] @ replicate 32 0) =
     js ''AAAAAAAAAAAAAAAAAAAAAAAAAAAAAAAAAAAAAAAAAAAAAQAAAAAAAAAAAAAAAAAAAAAAAAAAAAAAAAAAAAAAAAAA''"
  by (simp add: replicate_32 base64_encode_def base64_padding_def b64_char_def js_def)

lemma encode_A: "TextEncoder_encode (js ''A'') = [0x41]"
  by (simp add: TextEncoder_encode_def utf8_bytes_def is_high_surrogate_def
      is_low_surrogate_def js_def)

lemma toy_encrypt:
  "encryptMessage toy_provider (js ''A'') (publicKey toy_pair) zero_rng = (Inr toy_envelope, zero_rng)"
proof -
  have "encryptMessage toy_provider (js ''A'') (publicKey toy_pair) zero_rng =
          (Inr \<lparr>ciphertext = base64_encode ([0x41] @ replicate 32 0 @ replicate 12 0 @ [0x41]),
                iv = base64_encode (replicate 12 0),
                encryptedKey = base64_encode (replicate 32 0 @ [0, 1] @ replicate 32 0)\<rparr>,
           zero_rng)"
    unfolding encryptMessage_wrap toy_key_zero toy_nonce_zero toy_rest_zero encode_A
    by (simp add: subtle_encrypt_def toy_pair_def)
  then show ?thesis
    unfolding toy_ciphertext_field toy_iv_field toy_key_field toy_envelope_def .
qed

lemma toy_encrypt_counting:
  "fst (encryptMessage toy_provider (js ''A'') (publicKey toy_pair) counting_rng) =
     Inr \<lparr>ciphertext = base64_encode ([0x41] @ drawn_key counting_rng
                           @ drawn_nonce counting_rng @ [0x41]),
          iv = base64_encode (drawn_nonce counting_rng),
          encryptedKey = base64_encode (drawn_key counting_rng @ [0, 1]
                           @ drawn_key counting_rng)\<rparr>"
  unfolding encryptMessage_wrap encode_A
  by (simp add: subtle_encrypt_def toy_pair_def drawn_key_def)

lemma toy_nonces_differ: "drawn_nonce counting_rng \<noteq> drawn_nonce zero_rng"
proof
  assume "drawn_nonce counting_rng = drawn_nonce zero_rng"
  then have "hd (drawn_nonce counting_rng) = hd (drawn_nonce zero_rng)" by simp
  then show False
    by (simp add: drawn_nonce_eq counting_rng_def zero_rng_def)
qed

text \<open>
  Claim C4, amended. Every call of \<^verbatim>\<open>encryptMessage\<close> that returns an envelope has drawn a
  256-bit key (the next 32 bytes of the random source) and then a 12-byte nonce (the 12
  bytes after them); the message is encrypted under that key and nonce and the key is
  what is wrapped; the \<open>iv\<close> field base64-decodes to exactly the 12 bytes of the nonce;
  and two calls return the same \<open>iv\<close> exactly when the random source gave them the same
  nonce.
\<close>

theorem nonce_per_call:
  assumes "fst (encryptMessage P msg pub g) = Inr E"
  shows "drawn_key g = map g [0..<32] \<and> length (drawn_key g) = 32 \<and>
         drawn_nonce g = map g [32..<44] \<and> length (drawn_nonce g) = 12 \<and>
         base64ToArrayBuffer (iv E) = Inr (drawn_nonce g) \<and>
         (\<exists>ct w g2. aes_gcm_encrypt P (drawn_key g) (drawn_nonce g) (TextEncoder_encode msg)
                       = Some ct \<and>
                    ciphertext E = base64_encode ct \<and>
                    fst (subtle_encrypt P RsaOaepParams pub (drawn_key g) g2) = Inr w \<and>
                    encryptedKey E = base64_encode w) \<and>
         (\<forall>msg' pub' g' E'. fst (encryptMessage P msg' pub' g') = Inr E' \<longrightarrow>
            (iv E' = iv E \<longleftrightarrow> drawn_nonce g' = drawn_nonce g))"
proof (intro conjI allI impI)
  show "drawn_key g = map g [0..<32]" by (rule drawn_key_eq)
  show "drawn_nonce g = map g [32..<44]" by (rule drawn_nonce_eq)
  show "length (drawn_key g) = 32" by (simp add: drawn_key_def)
  show "length (drawn_nonce g) = 12" by (simp add: drawn_nonce_def)
  show "base64ToArrayBuffer (iv E) = Inr (drawn_nonce g)"
    by (simp add: encryptMessage_iv [OF assms])
  show "\<exists>ct w g2. aes_gcm_encrypt P (drawn_key g) (drawn_nonce g) (TextEncoder_encode msg)
                       = Some ct \<and>
                    ciphertext E = base64_encode ct \<and>
                    fst (subtle_encrypt P RsaOaepParams pub (drawn_key g) g2) = Inr w \<and>
                    encryptedKey E = base64_encode w"
    using assms unfolding encryptMessage_wrap
    by (auto split: option.splits prod.splits sum.splits) (metis fst_conv)
next
  fix msg' pub' g' E'
  assume "fst (encryptMessage P msg' pub' g') = Inr E'"
  then show "iv E' = iv E \<longleftrightarrow> drawn_nonce g' = drawn_nonce g"
    by (simp add: encryptMessage_iv [OF assms] encryptMessage_iv base64_encode_inj)
qed

theorem nonce_per_call_witness:
  "fst (encryptMessage toy_provider (js ''A'') (publicKey toy_pair) zero_rng) = Inr toy_envelope \<and>
   drawn_nonce zero_rng = map zero_rng [32..<44] \<and> length (drawn_nonce zero_rng) = 12 \<and>
   base64ToArrayBuffer (iv toy_envelope) = Inr (drawn_nonce zero_rng) \<and>
   fst (encryptMessage toy_provider (js ''A'') (publicKey toy_pair) counting_rng) =
     Inr \<lparr>ciphertext = base64_encode ([0x41] @ drawn_key counting_rng
                           @ drawn_nonce counting_rng @ [0x41]),
          iv = base64_encode (drawn_nonce counting_rng),
          encryptedKey = base64_encode (drawn_key counting_rng @ [0, 1]
                           @ drawn_key counting_rng)\<rparr> \<and>
   base64_encode (drawn_nonce counting_rng) \<noteq> iv toy_envelope"
proof -
  have e: "fst (encryptMessage toy_provider (js ''A'') (publicKey toy_pair) zero_rng) = Inr toy_envelope"
    by (simp add: toy_encrypt)
  have "iv \<lparr>ciphertext = base64_encode ([0x41] @ drawn_key counting_rng
                           @ drawn_nonce counting_rng @ [0x41]),
          iv = base64_encode (drawn_nonce counting_rng),
          encryptedKey = base64_encode (drawn_key counting_rng @ [0, 1]
                           @ drawn_key counting_rng)\<rparr> = iv toy_envelope
        \<longleftrightarrow> drawn_nonce counting_rng = drawn_nonce zero_rng"
    using nonce_per_call [OF e] toy_encrypt_counting by blast
  then have "base64_encode (drawn_nonce counting_rng) \<noteq> iv toy_envelope"
    using toy_nonces_differ by simp
  then show ?thesis using nonce_per_call [OF e] e toy_encrypt_counting by blast
qed

text \<open>
  The claim as stated fails when the random source repeats: two calls in a row with the
  same plaintext and the same public key, the source returning zeros, give the same
  \<open>iv\<close>.
\<close>

theorem nonce_per_call_counterexample:
  "two_ivs toy_provider (js ''A'') (publicKey toy_pair) zero_rng =
     (Inr (js ''AAAAAAAAAAAAAAAA''), Inr (js ''AAAAAAAAAAAAAAAA''))"
  by (simp add: two_ivs_def toy_encrypt toy_envelope_def)

section \<open>The detection properties on the provider to compute with\<close>








section \<open>What a changed character of a base64 text decodes to\<close>

































section \<open>Wrong keys and changed envelopes\<close>












section \<open>The claim on tampering, on the provider to compute with\<close>















end
